theory Spec2Isabelle
  imports Complex_Main "HOL-Library.Multiset"
begin

section \<open>Geometry primitives\<close>

text \<open>
  The planner works on \<open>double\<close> values through Eigen and the ROS message types.
  A \<open>double\<close> is modelled as a \<^typ>\<open>real\<close>: the arithmetic is exact, and the
  control flow (comparisons, loop exits, index bookkeeping) is that of the source.
  \<open>Eigen::Vector3d\<close> is a triple of reals, \<open>Eigen::Quaterniond\<close> is built, as in
  Eigen, from \<open>(w, x, y, z)\<close>.
\<close>

datatype Vector3d = Vector3d (vx: real) (vy: real) (vz: real)

datatype Quaterniond = Quaterniond (qw: real) (qx: real) (qy: real) (qz: real)

definition vsub :: "Vector3d \<Rightarrow> Vector3d \<Rightarrow> Vector3d" where
  "vsub u v = Vector3d (vx u - vx v) (vy u - vy v) (vz u - vz v)"

definition vadd :: "Vector3d \<Rightarrow> Vector3d \<Rightarrow> Vector3d" where
  "vadd u v = Vector3d (vx u + vx v) (vy u + vy v) (vz u + vz v)"

definition vscale :: "Vector3d \<Rightarrow> real \<Rightarrow> Vector3d" where
  "vscale u c = Vector3d (vx u * c) (vy u * c) (vz u * c)"

definition squaredNorm :: "Vector3d \<Rightarrow> real" where
  "squaredNorm u = vx u * vx u + vy u * vy u + vz u * vz u"

definition norm3 :: "Vector3d \<Rightarrow> real" where
  "norm3 u = sqrt (squaredNorm u)"

text \<open>
  \<open>normalized()\<close> divides by the norm when the squared norm is positive and returns the
  vector itself otherwise.
\<close>

definition normalized :: "Vector3d \<Rightarrow> Vector3d" where
  "normalized u = (if squaredNorm u > 0 then vscale u (1 / norm3 u) else u)"

text \<open>
  \<open>geometry_msgs::Pose\<close> carries a position and an orientation quaternion; a
  \<open>PoseArray\<close> is the list of its poses. \<open>Eigen::Affine3d\<close> is used by the planner for
  rigid transforms only; its linear part is kept here as the quaternion of the rotation, so
  that the two conversions \<open>tf::poseMsgToEigen\<close> and \<open>tf::poseEigenToMsg\<close> copy the two
  components. A rotation has two unit quaternions, \<open>q\<close> and \<open>-q\<close>, and the library
  conversions through the rotation matrix may return either; the positions, \<open>Q_prime\<close>
  and the rotation of a vector below are the same for both.
\<close>

record Pose =
  position :: Vector3d
  orientation :: Quaterniond

record Affine3d =
  translation :: Vector3d
  rotation :: Quaterniond

type_synonym PoseArray = "Pose list"

type_synonym vector_Affine3d = "Affine3d list"

definition poseMsgToEigen :: "Pose \<Rightarrow> Affine3d" where
  "poseMsgToEigen m = \<lparr>translation = position m, rotation = orientation m\<rparr>"

definition poseEigenToMsg :: "Affine3d \<Rightarrow> Pose" where
  "poseEigenToMsg e = \<lparr>position = translation e, orientation = rotation e\<rparr>"

definition toEigen :: "PoseArray \<Rightarrow> vector_Affine3d" where
  "toEigen p = map poseMsgToEigen p"

definition toEigens :: "PoseArray list \<Rightarrow> vector_Affine3d list" where
  "toEigens ps = map toEigen ps"

definition toMsg :: "vector_Affine3d \<Rightarrow> PoseArray" where
  "toMsg p = map poseEigenToMsg p"

datatype error = logic_error string | assertion_failed | undefined_behaviour

section \<open>Margin code\<close>

definition pointDistance :: "Affine3d \<Rightarrow> Affine3d \<Rightarrow> real" where
  "pointDistance a b = norm3 (vsub (translation a) (translation b))"

definition segmentLength :: "vector_Affine3d \<Rightarrow> real" where
  "segmentLength segment =
     fold (\<lambda>i len. len + pointDistance (segment ! i) (segment ! (i - 1)))
       [1 ..< length segment] 0"

definition approxEqual :: "real \<Rightarrow> real \<Rightarrow> bool" where
  "approxEqual a b = (\<bar>a - b\<bar> < 1 / 1000)"

text \<open>
  The forward loop of \<open>applyMargins\<close>, from index \<open>i\<close> with \<open>distance_to_go\<close> left. The
  result is the pair \<open>(forward_index, forward_dist)\<close> at the \<open>break\<close>, or the initial
  \<open>(0, 0.0)\<close> when the loop runs to its end.
\<close>

function forward_scan :: "vector_Affine3d \<Rightarrow> real \<Rightarrow> nat \<Rightarrow> nat \<times> real" where
  "forward_scan segment distance_to_go i =
     (if i < length segment then
        (let segment_dist = pointDistance (segment ! i) (segment ! (i - 1))
         in if approxEqual segment_dist distance_to_go then (i, 0)
            else if distance_to_go > segment_dist
              then forward_scan segment (distance_to_go - segment_dist) (i + 1)
            else (i, distance_to_go))
      else (0, 0))"
  by pat_completeness auto
termination
  by (relation "measure (\<lambda>(segment, d, i). length segment - i)") auto

declare forward_scan.simps [simp del]

text \<open>
  The reverse loop, counting \<open>i\<close> down to 1 with \<open>idx = i - 1\<close>; when it runs to its end
  \<open>reverse_index\<close> keeps its initial value \<open>segment.size() - 1\<close>.
\<close>

fun reverse_scan :: "vector_Affine3d \<Rightarrow> real \<Rightarrow> nat \<Rightarrow> nat \<times> real" where
  "reverse_scan segment distance_to_go 0 = (length segment - 1, 0)"
| "reverse_scan segment distance_to_go (Suc idx) =
     (let segment_dist = pointDistance (segment ! idx) (segment ! (idx + 1))
      in if approxEqual segment_dist distance_to_go then (idx, 0)
         else if distance_to_go > segment_dist
           then reverse_scan segment (distance_to_go - segment_dist) idx
         else (idx, distance_to_go))"

definition interp :: "Affine3d \<Rightarrow> Affine3d \<Rightarrow> real \<Rightarrow> Affine3d" where
  "interp start stop d =
     \<lparr>translation =
        vadd (translation start)
          (vscale (normalized (vsub (translation stop) (translation start))) d),
      rotation = rotation start\<rparr>"

text \<open>
  \<open>applyMargins\<close> on one segment. The two \<open>throw std::logic_error\<close> statements are the
  \<open>Inl\<close> results. \<open>segment.size() - 1\<close> is computed in \<open>size_t\<close>; it is only reached
  after the forward loop has set \<open>forward_index\<close>, which needs two samples, so the
  subtraction does not wrap there.
\<close>

definition applyMargins :: "vector_Affine3d \<Rightarrow> real \<Rightarrow> error + vector_Affine3d" where
  "applyMargins segment offset =
     (if segmentLength segment < 2 * offset then Inr segment
      else
        (case forward_scan segment offset 1 of (forward_index, forward_dist) \<Rightarrow>
          if forward_index = 0
          then Inl (logic_error ''Something went wrong with margins'')
          else
            (case reverse_scan segment offset (length segment - 1) of
               (reverse_index, reverse_dist) \<Rightarrow>
              if reverse_index = length segment - 1
              then Inl (logic_error ''Something went wrong with margins (reverse)'')
              else
                (let new_start = interp (segment ! (forward_index - 1))
                                   (segment ! forward_index) forward_dist;
                     new_end = interp (segment ! (reverse_index + 1))
                                 (segment ! reverse_index) reverse_dist
                 in Inr ((if forward_dist \<noteq> 0 then [new_start] else [])
                         @ map (\<lambda>i. segment ! i) [forward_index ..< reverse_index + 1]
                         @ (if reverse_dist \<noteq> 0 then [new_end] else []))))))"

text \<open>The batch overload: every segment is trimmed on its own; the first throw ends the call.\<close>

fun applyMargins_loop :: "vector_Affine3d list \<Rightarrow> real \<Rightarrow> error + PoseArray list" where
  "applyMargins_loop [] offset = Inr []"
| "applyMargins_loop (segment # segments) offset =
     (case applyMargins segment offset of
        Inl e \<Rightarrow> Inl e
      | Inr with_margins \<Rightarrow>
          (case applyMargins_loop segments offset of
             Inl e \<Rightarrow> Inl e
           | Inr result \<Rightarrow> Inr (toMsg with_margins # result)))"

definition applyMargins_paths :: "PoseArray list \<Rightarrow> real \<Rightarrow> error + PoseArray list" where
  "applyMargins_paths paths offset = applyMargins_loop (toEigens paths) offset"

section \<open>Sequencing code\<close>

text \<open>
  \<open>PathEndPoints\<close> has the fields \<open>a\<close>, \<open>b\<close> and \<open>id\<close>, and \<open>SequencePoint\<close> the fields
  \<open>id\<close> and \<open>from_a\<close>; the short names are prefixed here (\<open>id\<close> is the identity
  function of HOL).
\<close>

record PathEndPoints =
  end_a :: Vector3d
  end_b :: Vector3d
  end_id :: nat

record SequencePoint =
  seq_id :: nat
  from_a :: bool

text \<open>
  Quaternion operations of Eigen used by the planner: the product, \<open>squaredNorm()\<close>,
  \<open>inverse()\<close> (the conjugate over the squared norm, the zero quaternion when the squared
  norm is not positive) and the action of \<open>toRotationMatrix()\<close> on a vector.
  \<open>quat_neg q\<close> is \<open>-q\<close>, the other quaternion of the same rotation.
\<close>

definition quat_mult :: "Quaterniond \<Rightarrow> Quaterniond \<Rightarrow> Quaterniond" where
  "quat_mult p q = Quaterniond
     (qw p * qw q - qx p * qx q - qy p * qy q - qz p * qz q)
     (qw p * qx q + qx p * qw q + qy p * qz q - qz p * qy q)
     (qw p * qy q + qy p * qw q + qz p * qx q - qx p * qz q)
     (qw p * qz q + qz p * qw q + qx p * qy q - qy p * qx q)"

definition quat_squaredNorm :: "Quaterniond \<Rightarrow> real" where
  "quat_squaredNorm q = qw q * qw q + qx q * qx q + qy q * qy q + qz q * qz q"

definition quat_neg :: "Quaterniond \<Rightarrow> Quaterniond" where
  "quat_neg q = Quaterniond (- qw q) (- qx q) (- qy q) (- qz q)"

definition quat_inverse :: "Quaterniond \<Rightarrow> Quaterniond" where
  "quat_inverse q =
     (let n2 = quat_squaredNorm q
      in if n2 > 0 then Quaterniond (qw q / n2) (- qx q / n2) (- qy q / n2) (- qz q / n2)
         else Quaterniond 0 0 0 0)"

definition rotate_vec :: "Quaterniond \<Rightarrow> Vector3d \<Rightarrow> Vector3d" where
  "rotate_vec q v =
     (let tx = 2 * qx q; ty = 2 * qy q; tz = 2 * qz q;
          twx = tx * qw q; twy = ty * qw q; twz = tz * qw q;
          txx = tx * qx q; txy = ty * qx q; txz = tz * qx q;
          tyy = ty * qy q; tyz = tz * qy q; tzz = tz * qz q
      in Vector3d
           ((1 - (tyy + tzz)) * vx v + (txy - twz) * vy v + (txz + twy) * vz v)
           ((txy + twz) * vx v + (1 - (txx + tzz)) * vy v + (tyz - twx) * vz v)
           ((txz - twy) * vx v + (tyz + twx) * vy v + (1 - (txx + tyy)) * vz v))"

text \<open>
  \<open>toEndPoints\<close>: \<open>ref_inv\<close> is the inverse rotation as a transform without translation,
  so \<open>(ref_inv * s.front()).translation()\<close> is the rotated translation of the first
  sample. \<open>front()\<close> and \<open>back()\<close> are \<open>hd\<close> and \<open>last\<close>; \<open>sequence\<close> below
  rejects an empty segment before they are reached.
\<close>

definition toEndPoints :: "vector_Affine3d list \<Rightarrow> Quaterniond \<Rightarrow> PathEndPoints list" where
  "toEndPoints segments ref_rotation =
     (let ref_inv = quat_inverse ref_rotation
      in map (\<lambda>i. let s = segments ! i
                  in \<lparr>end_a = rotate_vec ref_inv (translation (hd s)),
                      end_b = rotate_vec ref_inv (translation (last s)),
                      end_id = i\<rparr>)
           [0 ..< length segments])"

text \<open>
  \<open>reversePathAndPoses\<close>: the poses in reverse order, each orientation multiplied on the
  right by the half turn about Z, \<open>AngleAxisd(M_PI, UnitZ)\<close>, whose quaternion is
  \<open>(w, x, y, z) = (0, 0, 0, 1)\<close>. The position is not touched.
\<close>

definition reversePathAndPoses :: "PoseArray \<Rightarrow> PoseArray" where
  "reversePathAndPoses path =
     map (\<lambda>msg. let eig = poseMsgToEigen msg
                in poseEigenToMsg
                     (eig\<lparr>rotation := quat_mult (rotation eig) (Quaterniond 0 0 0 1)\<rparr>))
       (rev path)"

text \<open>
  \<open>makeSequence\<close>. The \<open>assert\<close> on the sizes and the two unchecked \<open>operator[]\<close>
  reads are branches of the model.
\<close>

fun makeSequence_loop ::
  "PoseArray list \<Rightarrow> SequencePoint list \<Rightarrow> PathEndPoints list \<Rightarrow> error + PoseArray list" where
  "makeSequence_loop inp [] end_points = Inr []"
| "makeSequence_loop inp (seq # seqs) end_points =
     (if seq_id seq < length end_points \<and> end_id (end_points ! seq_id seq) < length inp
      then
        (let seg = inp ! end_id (end_points ! seq_id seq);
             seg' = (if \<not> from_a seq then reversePathAndPoses seg else seg)
         in case makeSequence_loop inp seqs end_points of
              Inl e \<Rightarrow> Inl e
            | Inr rs \<Rightarrow> Inr (seg' # rs))
      else Inl undefined_behaviour)"

definition makeSequence ::
  "PoseArray list \<Rightarrow> SequencePoint list \<Rightarrow> PathEndPoints list \<Rightarrow> error + PoseArray list" where
  "makeSequence inp seqs end_points =
     (if length inp \<noteq> length seqs then Inl assertion_failed
      else makeSequence_loop inp seqs end_points)"

text \<open>
  \<open>average\<close>. \<open>Eigen::MatrixXd\<close> and \<open>Eigen::VectorXd\<close> are read by index, so they are
  functions of the indices (row, then column). \<open>coeffs()\<close> of a quaternion is in the order
  \<open>x, y, z, w\<close>. \<open>Q_prime\<close> is \<open>Q * Q.transpose()\<close> for the \<open>4 \<times> N\<close> matrix \<open>Q\<close> whose
  columns are the coefficient vectors; it is \<open>4 \<times> 4\<close>, so \<open>eigen_vals.size()\<close> is 4.

  \<open>Eigen::SelfAdjointEigenSolver\<close> is a library class; it is a parameter of the model:
  a function from the matrix to its \<open>eigenvalues()\<close> and \<open>eigenvectors()\<close> (one
  eigenvector per column). \<open>selfadjoint_eigen M r\<close> says what the library documents of its
  result \<open>r\<close> on the symmetric \<open>4 \<times> 4\<close> matrix \<open>M\<close>: the columns are orthonormal, and
  \<open>M = V D V\<^sup>T\<close> with \<open>D\<close> the diagonal matrix of the eigenvalues.
\<close>

type_synonym VectorXd = "nat \<Rightarrow> real"

type_synonym MatrixXd = "nat \<Rightarrow> nat \<Rightarrow> real"

type_synonym eigensolver = "MatrixXd \<Rightarrow> VectorXd \<times> MatrixXd"

definition selfadjoint_eigen :: "MatrixXd \<Rightarrow> VectorXd \<times> MatrixXd \<Rightarrow> bool" where
  "selfadjoint_eigen M r =
     (case r of (vals, V) \<Rightarrow>
        (\<forall>i\<in>{..<4}. \<forall>j\<in>{..<4}. (\<Sum>k<4. V k i * V k j) = (if i = j then 1 else 0)) \<and>
        (\<forall>i\<in>{..<4}. \<forall>j\<in>{..<4}. M i j = (\<Sum>k<4. V i k * vals k * V j k)))"

definition coeffs :: "Quaterniond \<Rightarrow> VectorXd" where
  "coeffs q i = [qx q, qy q, qz q, qw q] ! i"

definition Q_matrix :: "Quaterniond list \<Rightarrow> MatrixXd" where
  "Q_matrix qs i k = coeffs (qs ! k) i"

definition Q_prime :: "Quaterniond list \<Rightarrow> MatrixXd" where
  "Q_prime qs i j = (\<Sum>k<length qs. Q_matrix qs i k * Q_matrix qs j k)"

text \<open>The loop over the eigenvalues: the state is \<open>(max_idx, max_value)\<close>.\<close>

definition max_eigen :: "VectorXd \<Rightarrow> nat \<Rightarrow> nat \<times> real" where
  "max_eigen eigen_vals n =
     fold (\<lambda>i (max_idx, max_value).
             if eigen_vals i > max_value then (i, eigen_vals i) else (max_idx, max_value))
       [0 ..< n] (0, 0)"

definition average :: "eigensolver \<Rightarrow> Quaterniond list \<Rightarrow> Quaterniond" where
  "average solver qs =
     (case solver (Q_prime qs) of (eigen_vals, eigen_vecs) \<Rightarrow>
        (let max_idx = fst (max_eigen eigen_vals 4);
             cs = (\<lambda>i. eigen_vecs i max_idx)
         in Quaterniond (cs 3) (cs 0) (cs 1) (cs 2)))"

definition averageQuaternion :: "eigensolver \<Rightarrow> vector_Affine3d \<Rightarrow> Quaterniond" where
  "averageQuaternion solver poses = average solver (map rotation poses)"

text \<open>\<open>longestSegment\<close>: the state of the loop is \<open>(max_index, max_dist)\<close>.\<close>

definition end_displacement :: "vector_Affine3d \<Rightarrow> real" where
  "end_displacement s = squaredNorm (vsub (translation (hd s)) (translation (last s)))"

definition longestSegment :: "vector_Affine3d list \<Rightarrow> nat" where
  "longestSegment segments =
     fst (fold (\<lambda>i (max_index, max_dist).
                  let d = end_displacement (segments ! i)
                  in if d > max_dist then (i, d) else (max_index, max_dist))
            [0 ..< length segments] (0, 0))"

text \<open>
  \<open>sequence\<close>. The lambda \<open>current_position\<close> and the loop that fills the vector
  \<open>sequence\<close> are \<open>current_position\<close> and \<open>sequence_steps\<close>. \<open>std::sort\<close> with
  the comparator on \<open>min(a.y, b.y)\<close> is the sort by that key; \<open>std::sort\<close> leaves the
  order of records with equal keys open, and the model keeps them in their order
  (the theorems on the steps and on the permutation hold for every order of the
  records). An empty segment, on which \<open>front()\<close> is undefined, is an error of the model.
\<close>

definition lateral_key :: "PathEndPoints \<Rightarrow> real" where
  "lateral_key e = min (vy (end_a e)) (vy (end_b e))"

definition current_position :: "PathEndPoints list \<Rightarrow> SequencePoint \<Rightarrow> Vector3d" where
  "current_position end_points p =
     (if from_a p then end_b (end_points ! seq_id p) else end_a (end_points ! seq_id p))"

definition sequence_step :: "PathEndPoints list \<Rightarrow> nat \<Rightarrow> SequencePoint list \<Rightarrow> SequencePoint list" where
  "sequence_step end_points i sequence =
     (let current_pos = current_position end_points (last sequence);
          dist_a = squaredNorm (vsub (end_a (end_points ! i)) current_pos);
          dist_b = squaredNorm (vsub (end_b (end_points ! i)) current_pos);
          from_a = dist_a < dist_b
      in sequence @ [\<lparr>seq_id = i, from_a = from_a\<rparr>])"

definition sequence_steps :: "PathEndPoints list \<Rightarrow> SequencePoint list" where
  "sequence_steps end_points =
     fold (sequence_step end_points) [1 ..< length end_points] [\<lparr>seq_id = 0, from_a = True\<rparr>]"

definition sequence :: "eigensolver \<Rightarrow> PoseArray list \<Rightarrow> error + PoseArray list" where
  "sequence solver input =
     (if input = [] then Inr []
      else if [] \<in> set input then Inl undefined_behaviour
      else
        (let eigen_poses = toEigens input;
             longest_segment_idx = longestSegment eigen_poses;
             avg_quaternion = averageQuaternion solver (eigen_poses ! longest_segment_idx);
             end_points = sort_key lateral_key (toEndPoints eigen_poses avg_quaternion);
             sequence = sequence_steps end_points
         in makeSequence input sequence end_points))"

section \<open>Auxiliary definitions\<close>

text \<open>
  \<open>arc_pos segment k\<close> is the arc length from the first sample to sample \<open>k\<close>.
  \<open>steps_upto end_points k\<close> is the vector \<open>sequence\<close> when the loop of \<open>sequence\<close>
  reaches \<open>i = k\<close>, and \<open>placed inp end_points seq\<close> is what one iteration of
  \<open>makeSequence\<close> appends for the step \<open>seq\<close>.
\<close>

definition arc_pos :: "vector_Affine3d \<Rightarrow> nat \<Rightarrow> real" where
  "arc_pos segment k =
     sum_list (map (\<lambda>i. pointDistance (segment ! i) (segment ! (i - 1))) [1 ..< Suc k])"

definition steps_upto :: "PathEndPoints list \<Rightarrow> nat \<Rightarrow> SequencePoint list" where
  "steps_upto end_points k =
     fold (sequence_step end_points) [1 ..< k] [\<lparr>seq_id = 0, from_a = True\<rparr>]"

definition placed :: "PoseArray list \<Rightarrow> PathEndPoints list \<Rightarrow> SequencePoint \<Rightarrow> PoseArray" where
  "placed inp end_points seq =
     (let seg = inp ! end_id (end_points ! seq_id seq)
      in if \<not> from_a seq then reversePathAndPoses seg else seg)"

section \<open>Concrete inputs\<close>

text \<open>
  Samples and poses with the identity orientation, the three segments of the sequencing
  scenario with their end points, and the eigen-decomposition of a diagonal matrix (the
  eigenvalues are the diagonal, the eigenvectors the unit vectors).
\<close>

definition sample_at :: "real \<Rightarrow> real \<Rightarrow> real \<Rightarrow> Affine3d" where
  "sample_at px py pz = \<lparr>translation = Vector3d px py pz, rotation = Quaterniond 1 0 0 0\<rparr>"

definition pose_at :: "real \<Rightarrow> real \<Rightarrow> real \<Rightarrow> Pose" where
  "pose_at px py pz = \<lparr>position = Vector3d px py pz, orientation = Quaterniond 1 0 0 0\<rparr>"

definition scenario_input :: "PoseArray list" where
  "scenario_input =
     [[pose_at 0 0 0, pose_at 1 0 0], [pose_at 0 1 0, pose_at 1 1 0],
      [pose_at 0 2 0, pose_at 1 2 0]]"

definition scenario_end_points :: "PathEndPoints list" where
  "scenario_end_points =
     [\<lparr>end_a = Vector3d 0 0 0, end_b = Vector3d 1 0 0, end_id = 0\<rparr>,
      \<lparr>end_a = Vector3d 0 1 0, end_b = Vector3d 1 1 0, end_id = 1\<rparr>,
      \<lparr>end_a = Vector3d 0 2 0, end_b = Vector3d 1 2 0, end_id = 2\<rparr>]"

definition diag_solver :: eigensolver where
  "diag_solver M = ((\<lambda>i. M i i), (\<lambda>i j. if i = j then 1 else 0))"

section \<open>Facts about the margin code\<close>

subsection \<open>Distances, the offset zero and the reach of the scans\<close>

lemma squaredNorm_nonneg: "0 \<le> squaredNorm u"
  by (simp add: squaredNorm_def)

lemma pointDistance_nonneg: "0 \<le> pointDistance a b"
  by (simp add: pointDistance_def norm3_def squaredNorm_nonneg)

lemma pointDistance_commute: "pointDistance a b = pointDistance b a"
proof -
  have "squaredNorm (vsub (translation a) (translation b))
      = squaredNorm (vsub (translation b) (translation a))"
    by (simp add: squaredNorm_def vsub_def algebra_simps)
  then show ?thesis by (simp add: pointDistance_def norm3_def)
qed

lemma pointDistance_on_x_axis:
  "pointDistance (sample_at s 0 0) (sample_at t 0 0) = \<bar>s - t\<bar>"
  by (simp add: pointDistance_def sample_at_def norm3_def squaredNorm_def vsub_def)

lemma fold_add_sum_list:
  "fold (\<lambda>i len. len + f i) xs (a::real) = a + sum_list (map f xs)"
  by (induction xs arbitrary: a) simp_all

lemma segmentLength_sum:
  "segmentLength segment =
     sum_list (map (\<lambda>i. pointDistance (segment ! i) (segment ! (i - 1))) [1 ..< length segment])"
  by (simp add: segmentLength_def fold_add_sum_list)

lemma segmentLength_sum_rev:
  "segmentLength segment =
     sum_list (map (\<lambda>k. pointDistance (segment ! k) (segment ! (k + 1)))
       [0 ..< length segment - 1])"
proof -
  have "map (\<lambda>i. pointDistance (segment ! i) (segment ! (i - 1))) [1 ..< length segment]
      = map (\<lambda>k. pointDistance (segment ! k) (segment ! (k + 1))) [0 ..< length segment - 1]"
    by (rule nth_equalityI) (auto simp: pointDistance_commute)
  then show ?thesis by (simp add: segmentLength_sum)
qed

lemma segmentLength_nonneg: "0 \<le> segmentLength segment"
  unfolding segmentLength_sum
  by (rule sum_list_nonneg) (auto simp: pointDistance_nonneg)

lemma segmentLength_single: "segmentLength [p] = 0"
  by (simp add: segmentLength_def)

lemma forward_scan_zero:
  assumes "2 \<le> length segment"
  shows "forward_scan segment 0 1 = (1, 0)"
proof -
  have "\<not> 0 > pointDistance (segment ! 1) (segment ! 0)"
    using pointDistance_nonneg [of "segment ! 1" "segment ! 0"] by simp
  with assms show ?thesis
    by (subst forward_scan.simps) (simp add: Let_def)
qed

lemma reverse_scan_zero: "reverse_scan segment 0 (Suc idx) = (idx, 0)"
proof -
  have "\<not> 0 > pointDistance (segment ! idx) (segment ! (idx + 1))"
    using pointDistance_nonneg [of "segment ! idx" "segment ! (idx + 1)"] by simp
  then show ?thesis
    by (simp add: Let_def)
qed

lemma reverse_scan_zero_last:
  assumes "2 \<le> length segment"
  shows "reverse_scan segment 0 (length segment - 1) = (length segment - 2, 0)"
proof -
  have "length segment - 1 = Suc (length segment - 2)"
    using assms by simp
  then show ?thesis
    by (simp only: reverse_scan_zero)
qed

lemma applyMargins_offset_zero:
  assumes "2 \<le> length segment"
  shows "applyMargins segment 0 = Inr (map (\<lambda>i. segment ! i) [1 ..< length segment - 1])"
proof -
  have n: "\<not> segmentLength segment < 2 * 0"
    using segmentLength_nonneg [of segment] by simp
  have ne: "length segment - 2 \<noteq> length segment - 1"
    using assms by simp
  have "Suc (length segment - 2) = length segment - 1"
    using assms by simp
  then show ?thesis
    unfolding applyMargins_def
    using forward_scan_zero [OF assms] reverse_scan_zero_last [OF assms] n ne
    by (simp del: reverse_scan.simps)
qed

text \<open>
  With two samples or more the scans always find their cut: if the forward loop runs to
  its end, every step took the branch \<open>distance_to_go > segment_dist\<close>, and the offset
  exceeds the whole arc length.
\<close>

lemma forward_scan_finds:
  "1 \<le> i \<Longrightarrow> i < length segment \<Longrightarrow>
   distance_to_go \<le> sum_list (map (\<lambda>k. pointDistance (segment ! k) (segment ! (k - 1)))
                          [i ..< length segment]) \<Longrightarrow>
   fst (forward_scan segment distance_to_go i) \<noteq> 0"
proof (induction segment distance_to_go i rule: forward_scan.induct)
  case (1 segment distance_to_go i)
  let ?d = "pointDistance (segment ! i) (segment ! (i - 1))"
  show ?case
  proof (cases "\<not> approxEqual ?d distance_to_go \<and> distance_to_go > ?d")
    case False
    with "1.prems" show ?thesis
      by (subst forward_scan.simps) (auto simp: Let_def)
  next
    case True
    have split: "[i ..< length segment] = i # [i + 1 ..< length segment]"
      using "1.prems" by (simp add: upt_conv_Cons)
    have rest: "distance_to_go - ?d
        \<le> sum_list (map (\<lambda>k. pointDistance (segment ! k) (segment ! (k - 1)))
                      [i + 1 ..< length segment])"
      using "1.prems"(3) unfolding split by simp
    have "i + 1 < length segment"
    proof (rule ccontr)
      assume "\<not> i + 1 < length segment"
      then have e: "[i + 1 ..< length segment] = []" by simp
      have "distance_to_go - ?d \<le> 0" using rest unfolding e by simp
      with True show False by simp
    qed
    with "1.IH" [of ?d] True "1.prems" rest
    have "fst (forward_scan segment (distance_to_go - ?d) (i + 1)) \<noteq> 0"
      by simp
    with True "1.prems" show ?thesis
      by (subst forward_scan.simps) (simp add: Let_def)
  qed
qed

lemma reverse_scan_finds:
  "i < length segment \<Longrightarrow> 0 < i \<Longrightarrow>
   distance_to_go \<le> sum_list (map (\<lambda>k. pointDistance (segment ! k) (segment ! (k + 1)))
                          [0 ..< i]) \<Longrightarrow>
   fst (reverse_scan segment distance_to_go i) < i"
proof (induction i arbitrary: distance_to_go)
  case 0
  then show ?case by simp
next
  case (Suc idx)
  let ?d = "pointDistance (segment ! idx) (segment ! (idx + 1))"
  show ?case
  proof (cases "\<not> approxEqual ?d distance_to_go \<and> distance_to_go > ?d")
    case False
    then show ?thesis by (auto simp: Let_def)
  next
    case True
    have rest: "distance_to_go - ?d
        \<le> sum_list (map (\<lambda>k. pointDistance (segment ! k) (segment ! (k + 1))) [0 ..< idx])"
      using Suc.prems(3) by simp
    have "0 < idx"
    proof (rule ccontr)
      assume "\<not> 0 < idx"
      then have "distance_to_go - ?d \<le> 0" using rest by simp
      with True show False by simp
    qed
    with Suc.IH [of "distance_to_go - ?d"] Suc.prems rest
    have "fst (reverse_scan segment (distance_to_go - ?d) idx) < idx" by simp
    with True show ?thesis by (simp add: Let_def)
  qed
qed

lemma applyMargins_no_error:
  assumes "2 \<le> length segment"
  shows "\<exists>trimmed. applyMargins segment offset = Inr trimmed"
proof (cases "segmentLength segment < 2 * offset")
  case True
  then show ?thesis by (simp add: applyMargins_def)
next
  case False
  have le: "offset \<le> segmentLength segment"
    using False segmentLength_nonneg [of segment] by linarith
  have "fst (forward_scan segment offset 1) \<noteq> 0"
    using assms le by (intro forward_scan_finds) (simp_all add: segmentLength_sum)
  moreover have "fst (reverse_scan segment offset (length segment - 1)) < length segment - 1"
    using assms le by (intro reverse_scan_finds) (simp_all add: segmentLength_sum_rev)
  ultimately show ?thesis
    using False by (auto simp: applyMargins_def Let_def split: prod.splits)
qed

lemma applyMargins_single_positive:
  "0 < offset \<Longrightarrow> applyMargins [p] offset = Inr [p]"
  by (simp add: applyMargins_def segmentLength_single)

subsection \<open>The length law for a positive offset\<close>

text \<open>
  With a positive offset each scan stops either on a sample whose arc position is within
  the tolerance of \<open>approxEqual\<close> of the offset, or between two samples at the exact
  offset with a positive interpolation distance.
\<close>

lemma arc_pos_0: "arc_pos segment 0 = 0"
  by (simp add: arc_pos_def)

lemma arc_pos_Suc:
  "arc_pos segment (Suc k) = arc_pos segment k + pointDistance (segment ! Suc k) (segment ! k)"
  by (simp add: arc_pos_def)

lemma arc_pos_mono: "k \<le> m \<Longrightarrow> arc_pos segment k \<le> arc_pos segment m"
proof (induction m)
  case 0
  then show ?case by simp
next
  case (Suc m)
  show ?case
  proof (cases "k = Suc m")
    case True
    then show ?thesis by simp
  next
    case False
    with Suc have "arc_pos segment k \<le> arc_pos segment m" by simp
    then show ?thesis
      using pointDistance_nonneg [of "segment ! Suc m" "segment ! m"]
      by (simp add: arc_pos_Suc)
  qed
qed

lemma segmentLength_arc_pos: "segmentLength segment = arc_pos segment (length segment - 1)"
proof (cases "length segment")
  case 0
  then show ?thesis by (simp add: segmentLength_sum arc_pos_def)
next
  case (Suc n)
  then show ?thesis by (simp add: segmentLength_sum arc_pos_def)
qed

lemma arc_pos_step:
  "1 \<le> i \<Longrightarrow> arc_pos segment i
     = arc_pos segment (i - 1) + pointDistance (segment ! i) (segment ! (i - 1))"
  using arc_pos_Suc [of segment "i - 1"] by simp

lemma forward_scan_cut:
  "forward_scan segment dtg i = (fi, fd) \<Longrightarrow> 1 \<le> i \<Longrightarrow> i < length segment \<Longrightarrow> 0 < dtg \<Longrightarrow>
   dtg \<le> arc_pos segment (length segment - 1) - arc_pos segment (i - 1) \<Longrightarrow>
   i \<le> fi \<and> fi < length segment
   \<and> ((fd = 0 \<and> \<bar>arc_pos segment fi - arc_pos segment (i - 1) - dtg\<bar> < 1 / 1000)
      \<or> (0 < fd \<and> arc_pos segment (fi - 1) - arc_pos segment (i - 1) + fd = dtg
          \<and> fd \<le> pointDistance (segment ! fi) (segment ! (fi - 1))))"
proof (induction segment dtg i rule: forward_scan.induct)
  case (1 segment dtg i)
  let ?d = "pointDistance (segment ! i) (segment ! (i - 1))"
  have step: "arc_pos segment i = arc_pos segment (i - 1) + ?d"
    using "1.prems" by (intro arc_pos_step) simp
  consider (approx) "approxEqual ?d dtg"
    | (more) "\<not> approxEqual ?d dtg" "dtg > ?d"
    | (found) "\<not> approxEqual ?d dtg" "\<not> dtg > ?d"
    by blast
  then show ?case
  proof cases
    case approx
    with "1.prems" have "fi = i" "fd = 0"
      by (simp_all add: forward_scan.simps [of segment dtg i] Let_def)
    with approx "1.prems" step show ?thesis
      by (simp add: approxEqual_def)
  next
    case more
    with "1.prems" have rec: "forward_scan segment (dtg - ?d) (i + 1) = (fi, fd)"
      by (simp add: forward_scan.simps [of segment dtg i] Let_def)
    have rest: "dtg - ?d \<le> arc_pos segment (length segment - 1) - arc_pos segment i"
      using "1.prems" step by simp
    have "arc_pos segment i < arc_pos segment (length segment - 1)"
      using rest more by simp
    then have "i \<noteq> length segment - 1" by auto
    with "1.prems" have lt: "i + 1 < length segment" by simp
    have "i + 1 \<le> fi \<and> fi < length segment
      \<and> ((fd = 0 \<and> \<bar>arc_pos segment fi - arc_pos segment (i + 1 - 1) - (dtg - ?d)\<bar> < 1 / 1000)
      \<or> (0 < fd \<and> arc_pos segment (fi - 1) - arc_pos segment (i + 1 - 1) + fd = dtg - ?d
          \<and> fd \<le> pointDistance (segment ! fi) (segment ! (fi - 1))))"
      using "1.IH" [OF _ _ _ _ rec] "1.prems" more lt rest by simp
    then show ?thesis
      using step by (auto simp: algebra_simps)
  next
    case found
    with "1.prems" have "fi = i" "fd = dtg"
      by (simp_all add: forward_scan.simps [of segment dtg i] Let_def)
    with found "1.prems" show ?thesis by simp
  qed
qed

lemma reverse_scan_cut:
  "reverse_scan segment dtg i = (ri, rd) \<Longrightarrow> 0 < i \<Longrightarrow> 0 < dtg \<Longrightarrow>
   dtg \<le> arc_pos segment i \<Longrightarrow>
   ri < i
   \<and> ((rd = 0 \<and> \<bar>arc_pos segment i - arc_pos segment ri - dtg\<bar> < 1 / 1000)
      \<or> (0 < rd \<and> arc_pos segment i - arc_pos segment (ri + 1) + rd = dtg
          \<and> rd \<le> pointDistance (segment ! (ri + 1)) (segment ! ri)))"
proof (induction i arbitrary: dtg)
  case 0
  then show ?case by simp
next
  case (Suc idx)
  let ?d = "pointDistance (segment ! idx) (segment ! (idx + 1))"
  have comm: "?d = pointDistance (segment ! Suc idx) (segment ! idx)"
    using pointDistance_commute [of "segment ! idx" "segment ! (idx + 1)"] by simp
  have step: "arc_pos segment (Suc idx) = arc_pos segment idx + ?d"
    using comm by (simp add: arc_pos_Suc)
  consider (approx) "approxEqual ?d dtg"
    | (more) "\<not> approxEqual ?d dtg" "dtg > ?d"
    | (found) "\<not> approxEqual ?d dtg" "\<not> dtg > ?d"
    by blast
  then show ?case
  proof cases
    case approx
    with Suc.prems have "ri = idx" "rd = 0"
      by (simp_all add: Let_def)
    with approx step show ?thesis
      by (simp add: approxEqual_def)
  next
    case more
    with Suc.prems have rec: "reverse_scan segment (dtg - ?d) idx = (ri, rd)"
      by (simp add: Let_def)
    have rest: "dtg - ?d \<le> arc_pos segment idx"
      using Suc.prems step by simp
    have "0 < arc_pos segment idx" using rest more by simp
    then have "0 < idx" by (cases idx) (simp_all add: arc_pos_0)
    from Suc.IH [OF rec this _ rest] more
    have "ri < idx
      \<and> ((rd = 0 \<and> \<bar>arc_pos segment idx - arc_pos segment ri - (dtg - ?d)\<bar> < 1 / 1000)
      \<or> (0 < rd \<and> arc_pos segment idx - arc_pos segment (ri + 1) + rd = dtg - ?d
          \<and> rd \<le> pointDistance (segment ! (ri + 1)) (segment ! ri)))"
      by simp
    then show ?thesis
      using step by (auto simp: algebra_simps)
  next
    case found
    with Suc.prems have "ri = idx" "rd = dtg"
      by (simp_all add: Let_def)
    with found Suc.prems comm show ?thesis by simp
  qed
qed

lemma segmentLength_Nil: "segmentLength [] = 0"
  by (simp add: segmentLength_def)

lemma segmentLength_Cons2:
  "segmentLength (x # y # xs) = pointDistance y x + segmentLength (y # xs)"
proof -
  have "[1 ..< Suc (Suc (length xs))] = 1 # [Suc 1 ..< Suc (Suc (length xs))]"
    by (rule upt_conv_Cons) simp
  also have "[Suc 1 ..< Suc (Suc (length xs))] = map Suc [1 ..< Suc (length xs)]"
    by (simp only: map_Suc_upt)
  finally have idx: "[1 ..< length (x # y # xs)] = 1 # map Suc [1 ..< length (y # xs)]"
    by simp
  have shift: "sum_list (map (\<lambda>k. pointDistance ((y # xs) ! k) ((x # y # xs) ! k))
                  [1 ..< length (y # xs)])
      = sum_list (map (\<lambda>k. pointDistance ((y # xs) ! k) ((y # xs) ! (k - 1)))
                  [1 ..< length (y # xs)])"
    by (intro arg_cong [where f = sum_list] map_cong) (auto simp: nth_Cons')
  have "segmentLength (x # y # xs)
      = pointDistance y x
        + sum_list (map (\<lambda>k. pointDistance ((y # xs) ! k) ((x # y # xs) ! k))
                     [1 ..< length (y # xs)])"
    unfolding segmentLength_sum idx by (simp add: comp_def del: upt_Suc)
  then show ?thesis
    unfolding shift segmentLength_sum [of "y # xs"] .
qed

lemma segmentLength_snoc:
  "xs \<noteq> [] \<Longrightarrow> segmentLength (xs @ [y]) = segmentLength xs + pointDistance y (last xs)"
proof (induction xs rule: list_nonempty_induct)
  case (single x)
  show ?case by (simp add: segmentLength_Cons2 segmentLength_single)
next
  case (cons x xs)
  then obtain z zs where xs: "xs = z # zs" by (cases xs) auto
  with cons.IH show ?case
    by (simp add: segmentLength_Cons2)
qed

lemma segmentLength_Cons:
  "xs \<noteq> [] \<Longrightarrow> segmentLength (x # xs) = pointDistance (hd xs) x + segmentLength xs"
  by (cases xs) (simp_all add: segmentLength_Cons2)

lemma segmentLength_range:
  "i \<le> j \<Longrightarrow> segmentLength (map (\<lambda>k. segment ! k) [i ..< Suc j])
     = arc_pos segment j - arc_pos segment i"
proof (induction j)
  case 0
  then show ?case by (simp add: segmentLength_single)
next
  case (Suc j)
  show ?case
  proof (cases "i = Suc j")
    case True
    then show ?thesis by (simp add: segmentLength_single)
  next
    case False
    with Suc.prems have ij: "i \<le> j" by simp
    have "map (\<lambda>k. segment ! k) [i ..< Suc (Suc j)]
        = map (\<lambda>k. segment ! k) [i ..< Suc j] @ [segment ! Suc j]"
      using ij by simp
    moreover have "map (\<lambda>k. segment ! k) [i ..< Suc j] \<noteq> []"
      using ij by simp
    moreover have "last (map (\<lambda>k. segment ! k) [i ..< Suc j]) = segment ! j"
      using ij by (simp add: last_map)
    ultimately show ?thesis
      using Suc.IH [OF ij] by (simp add: segmentLength_snoc arc_pos_Suc del: upt_Suc)
  qed
qed

lemma squaredNorm_vscale: "squaredNorm (vscale w c) = c * c * squaredNorm w"
  by (simp add: squaredNorm_def vscale_def algebra_simps)

lemma norm3_vscale: "norm3 (vscale w c) = \<bar>c\<bar> * norm3 w"
  by (simp add: norm3_def squaredNorm_vscale real_sqrt_mult)

lemma norm3_vsub_commute: "norm3 (vsub a b) = norm3 (vsub b a)"
proof -
  have "squaredNorm (vsub a b) = squaredNorm (vsub b a)"
    by (simp add: squaredNorm_def vsub_def algebra_simps)
  then show ?thesis by (simp add: norm3_def)
qed

lemma normalized_pos:
  "0 < norm3 w \<Longrightarrow> normalized w = vscale w (1 / norm3 w)"
  by (simp add: normalized_def norm3_def)

lemma interp_offset_start:
  assumes "0 < pointDistance stop start"
  shows "vsub (translation stop) (translation (interp start stop t))
       = vscale (vsub (translation stop) (translation start)) (1 - t / pointDistance stop start)"
proof -
  let ?w = "vsub (translation stop) (translation start)"
  have n: "normalized ?w = vscale ?w (1 / norm3 ?w)"
    using assms by (intro normalized_pos) (simp add: pointDistance_def)
  show ?thesis
    unfolding interp_def n pointDistance_def
    by (simp add: vsub_def vadd_def vscale_def algebra_simps)
qed

lemma pointDistance_interp:
  assumes "0 \<le> t" "t \<le> pointDistance stop start" "0 < pointDistance stop start"
  shows "pointDistance stop (interp start stop t) = pointDistance stop start - t"
proof -
  let ?d = "pointDistance stop start"
  have "pointDistance stop (interp start stop t) = \<bar>1 - t / ?d\<bar> * ?d"
    unfolding pointDistance_def [of stop "interp start stop t"] interp_offset_start [OF assms(3)]
    by (simp add: norm3_vscale pointDistance_def)
  also have "\<dots> = (1 - t / ?d) * ?d"
    using assms by simp
  also have "\<dots> = ?d - t"
    using assms by (simp add: field_simps)
  finally show ?thesis .
qed

lemma pointDistance_interp_both:
  assumes "0 \<le> t" "0 \<le> r" "t + r \<le> pointDistance stop start" "0 < pointDistance stop start"
  shows "pointDistance (interp stop start r) (interp start stop t) = pointDistance stop start - t - r"
proof -
  let ?d = "pointDistance stop start"
  let ?w = "vsub (translation stop) (translation start)"
  have d: "norm3 ?w = ?d" by (simp add: pointDistance_def)
  have d': "norm3 (vsub (translation start) (translation stop)) = ?d"
    by (simp add: pointDistance_def norm3_vsub_commute)
  have n1: "normalized ?w = vscale ?w (1 / ?d)"
    using assms d by (simp add: normalized_pos)
  have n2: "normalized (vsub (translation start) (translation stop))
      = vscale (vsub (translation start) (translation stop)) (1 / ?d)"
    using assms d' by (simp add: normalized_pos)
  have "vsub (translation (interp stop start r)) (translation (interp start stop t))
      = vscale ?w (1 - r / ?d - t / ?d)"
    unfolding interp_def n1 n2
    by (simp add: vsub_def vadd_def vscale_def algebra_simps)
  then have "pointDistance (interp stop start r) (interp start stop t) = \<bar>1 - r / ?d - t / ?d\<bar> * ?d"
    by (simp add: pointDistance_def [of "interp stop start r"] norm3_vscale d)
  also have "1 - r / ?d - t / ?d = (?d - t - r) / ?d"
    using assms by (simp add: field_simps)
  also have "\<bar>(?d - t - r) / ?d\<bar> * ?d = ?d - t - r"
    using assms by simp
  finally show ?thesis .
qed

text \<open>
  For a positive offset and an arc length of at least twice the offset, the trimmed
  segment is returned and its arc length differs from \<open>L - 2 * offset\<close> by less than
  twice the tolerance of \<open>approxEqual\<close>.
\<close>

lemma applyMargins_length_law_positive:
  assumes pos: "0 < offset" and long: "2 * offset \<le> segmentLength segment"
  shows "\<exists>trimmed. applyMargins segment offset = Inr trimmed
           \<and> \<bar>segmentLength trimmed - (segmentLength segment - 2 * offset)\<bar> < 2 / 1000"
proof -
  define n where "n = length segment"
  define L where "L = segmentLength segment"
  define P where "P = arc_pos segment"
  have LP: "L = P (n - 1)"
    by (simp add: L_def P_def n_def segmentLength_arc_pos)
  have Lpos: "0 < L" using pos long by (simp add: L_def)
  have n2: "2 \<le> n"
  proof (rule ccontr)
    assume "\<not> 2 \<le> n"
    then have "n - 1 = 0" by simp
    with LP Lpos show False by (simp add: P_def arc_pos_0)
  qed
  have mono: "P k \<le> P m" if "k \<le> m" for k m
    using that by (simp add: P_def arc_pos_mono)
  have step: "P (Suc k) = P k + pointDistance (segment ! Suc k) (segment ! k)" for k
    by (simp add: P_def arc_pos_Suc)
  obtain fi fd where f: "forward_scan segment offset 1 = (fi, fd)"
    by (cases "forward_scan segment offset 1")
  obtain ri rd where r: "reverse_scan segment offset (n - 1) = (ri, rd)"
    by (cases "reverse_scan segment offset (n - 1)")
  have "offset \<le> arc_pos segment (length segment - 1) - arc_pos segment (1 - 1)"
    using pos long by (simp add: segmentLength_arc_pos arc_pos_0)
  from forward_scan_cut [OF f _ _ pos this] n2
  have fi: "1 \<le> fi" "fi < n"
    and fcut: "(fd = 0 \<and> \<bar>P fi - offset\<bar> < 1 / 1000)
      \<or> (0 < fd \<and> P (fi - 1) + fd = offset
          \<and> fd \<le> pointDistance (segment ! fi) (segment ! (fi - 1)))"
    by (simp_all add: n_def P_def arc_pos_0)
  have "offset \<le> arc_pos segment (n - 1)"
    using pos long by (simp add: segmentLength_arc_pos n_def)
  from reverse_scan_cut [OF r _ pos this] n2
  have ri: "ri < n - 1"
    and rcut: "(rd = 0 \<and> \<bar>L - P ri - offset\<bar> < 1 / 1000)
      \<or> (0 < rd \<and> L - P (ri + 1) + rd = offset
          \<and> rd \<le> pointDistance (segment ! (ri + 1)) (segment ! ri))"
    by (simp_all add: LP P_def)
  define new_start where "new_start = interp (segment ! (fi - 1)) (segment ! fi) fd"
  define new_end where "new_end = interp (segment ! (ri + 1)) (segment ! ri) rd"
  define S where "S = (if fd \<noteq> 0 then [new_start] else [])"
  define M where "M = map (\<lambda>i. segment ! i) [fi ..< ri + 1]"
  define E where "E = (if rd \<noteq> 0 then [new_end] else [])"
  have res: "applyMargins segment offset = Inr (S @ M @ E)"
    using f r fi ri long
    by (simp add: applyMargins_def n_def [symmetric] Let_def S_def M_def E_def
        new_start_def new_end_def)
  define a where "a = (if fd = 0 then P fi else P (fi - 1) + fd)"
  define b where "b = (if rd = 0 then P ri else P (ri + 1) - rd)"
  have a: "\<bar>a - offset\<bar> < 1 / 1000"
    using fcut by (auto simp: a_def)
  have b: "\<bar>L - b - offset\<bar> < 1 / 1000"
    using rcut by (auto simp: b_def)
  have fstep: "P fi = P (fi - 1) + pointDistance (segment ! fi) (segment ! (fi - 1))"
    using step [of "fi - 1"] fi by simp
  have rstep: "P (ri + 1) = P ri + pointDistance (segment ! (ri + 1)) (segment ! ri)"
    using step [of ri] by simp
  have start_dist: "pointDistance (segment ! fi) new_start = P fi - a" if "fd \<noteq> 0"
  proof -
    from that fcut have "0 < fd" "fd \<le> pointDistance (segment ! fi) (segment ! (fi - 1))"
      by auto
    then show ?thesis
      unfolding new_start_def using that fstep
      by (simp add: pointDistance_interp a_def)
  qed
  have end_dist: "pointDistance new_end (segment ! ri) = b - P ri" if "rd \<noteq> 0"
  proof -
    have c: "pointDistance (segment ! ri) (segment ! (ri + 1))
        = pointDistance (segment ! (ri + 1)) (segment ! ri)"
      by (rule pointDistance_commute)
    have c': "pointDistance (segment ! ri) (segment ! Suc ri)
        = pointDistance (segment ! Suc ri) (segment ! ri)"
      by (rule pointDistance_commute)
    from that rcut c' have "0 < rd" "rd \<le> pointDistance (segment ! ri) (segment ! (ri + 1))"
      by auto
    then have "pointDistance (segment ! ri) new_end
        = pointDistance (segment ! ri) (segment ! (ri + 1)) - rd"
      unfolding new_end_def by (simp add: pointDistance_interp)
    then show ?thesis
      using that rstep c pointDistance_commute [of new_end "segment ! ri"]
      by (simp add: b_def)
  qed
  have len: "\<bar>segmentLength (S @ M @ E) - (L - 2 * offset)\<bar> < 2 / 1000"
  proof (cases "fi \<le> ri")
    case True
    have Mne: "M \<noteq> []" using True by (simp add: M_def)
    have "[fi ..< ri + 1] = fi # [Suc fi ..< ri + 1]"
      using True by (intro upt_conv_Cons) simp
    then have hdM: "hd M = segment ! fi"
      by (simp only: M_def list.map list.sel)
    have lastM: "last M = segment ! ri"
      using True by (simp add: M_def last_map)
    have lenM: "segmentLength M = P ri - P fi"
      using True segmentLength_range [of fi ri segment] by (simp add: M_def P_def)
    have lenME: "segmentLength (M @ E) = b - P fi"
    proof (cases "rd = 0")
      case True
      then show ?thesis by (simp add: E_def lenM b_def)
    next
      case False
      then show ?thesis
        using Mne lastM lenM end_dist by (simp add: E_def segmentLength_snoc)
    qed
    have "segmentLength (S @ M @ E) = b - a"
    proof (cases "fd = 0")
      case True
      then show ?thesis by (simp add: S_def lenME a_def)
    next
      case False
      then show ?thesis
        using Mne hdM lenME start_dist by (simp add: S_def segmentLength_Cons)
    qed
    with a b show ?thesis by linarith
  next
    case False
    then have gt: "ri < fi" by simp
    then have Mnil: "M = []" by (simp add: M_def)
    have nonneg: "0 \<le> L - 2 * offset" using long by (simp add: L_def)
    show ?thesis
    proof (cases "fd \<noteq> 0 \<and> rd \<noteq> 0")
      case True
      with fcut rcut have fx: "0 < fd" "P (fi - 1) + fd = offset"
        and rx: "0 < rd" "L - P (ri + 1) + rd = offset"
        and rle: "rd \<le> pointDistance (segment ! (ri + 1)) (segment ! ri)"
        by auto
      have sum: "P (fi - 1) + fd + rd \<le> P (ri + 1)"
        using fx rx nonneg by simp
      have same: "fi - 1 = ri"
      proof (rule ccontr)
        assume "fi - 1 \<noteq> ri"
        with gt have "ri + 1 \<le> fi - 1" by simp
        from mono [OF this] sum fx rx show False by simp
      qed
      then have fi_eq: "fi = ri + 1" using fi by simp
      let ?d = "pointDistance (segment ! (ri + 1)) (segment ! ri)"
      have tr: "fd + rd \<le> ?d"
        using sum same rstep by simp
      then have dpos: "0 < ?d" using fx rx by simp
      have "pointDistance new_end new_start = ?d - fd - rd"
        unfolding new_end_def new_start_def fi_eq using fx rx tr dpos
        by (simp add: pointDistance_interp_both)
      also have "\<dots> = L - 2 * offset"
        using fx rx same rstep by simp
      finally have "segmentLength (S @ M @ E) = L - 2 * offset"
        using True by (simp add: S_def E_def Mnil segmentLength_Cons2 segmentLength_single)
      then show ?thesis by simp
    next
      case False
      then have zero: "segmentLength (S @ M @ E) = 0"
        by (auto simp: S_def E_def Mnil segmentLength_single segmentLength_Nil)
      have "b \<le> a"
      proof (cases "fd = 0")
        case True
        have "b \<le> P (ri + 1)"
          using rcut mono [of ri "ri + 1"] by (auto simp: b_def)
        also have "\<dots> \<le> P fi" using gt by (intro mono) simp
        finally show ?thesis using True by (simp add: a_def)
      next
        case fd: False
        with False have rd: "rd = 0" by simp
        have "P ri \<le> P (fi - 1)" using gt by (intro mono) simp
        also have "\<dots> \<le> a" using fcut fd by (auto simp: a_def)
        finally show ?thesis using rd by (simp add: b_def)
      qed
      with a b nonneg zero show ?thesis by linarith
    qed
  qed
  with res show ?thesis by (simp add: L_def)
qed

text \<open>
  The margin scenario of the specification: the straight segment at \<open>x = 0, 1, 2, 3\<close>
  trimmed by \<open>0.5\<close> starts at \<open>x = 0.5\<close>, keeps \<open>x = 1, 2\<close> and ends at \<open>x = 2.5\<close>.
\<close>

lemma applyMargins_scenario:
  "applyMargins [sample_at 0 0 0, sample_at 1 0 0, sample_at 2 0 0, sample_at 3 0 0] (1 / 2)
     = Inr [sample_at (1 / 2) 0 0, sample_at 1 0 0, sample_at 2 0 0, sample_at (5 / 2) 0 0]"
  apply (simp add: applyMargins_def segmentLength_def pointDistance_on_x_axis)
  apply (subst forward_scan.simps)
  apply (simp add: pointDistance_on_x_axis approxEqual_def interp_def Let_def normalized_def)
  apply (simp add: sample_at_def vsub_def vadd_def vscale_def squaredNorm_def norm3_def)
  done

section \<open>Claims on the margin code\<close>

text \<open>
  C2, the margin length law, at the offset zero: the segment at \<open>x = 0, 1, 2, 3\<close> has arc
  length 3, which is at least twice the offset, and the law asks for a result of arc length
  \<open>3 - 2 * 0 = 3\<close>. \<open>applyMargins\<close> returns the two inner samples, of arc length 1: both
  loops stop at their first step with a zero interpolation distance, which the rebuild
  reads as a cut on a sample, so the first and the last sample are lost. For every
  positive offset the law holds up to twice the tolerance of \<open>approxEqual\<close>, as shown
  above.
\<close>

theorem applyMargins_length_law_fails_at_zero:
  "2 * 0 \<le> segmentLength [sample_at 0 0 0, sample_at 1 0 0, sample_at 2 0 0, sample_at 3 0 0]
   \<and> segmentLength [sample_at 0 0 0, sample_at 1 0 0, sample_at 2 0 0, sample_at 3 0 0] = 3
   \<and> applyMargins [sample_at 0 0 0, sample_at 1 0 0, sample_at 2 0 0, sample_at 3 0 0] 0
       = Inr [sample_at 1 0 0, sample_at 2 0 0]
   \<and> segmentLength [sample_at 1 0 0, sample_at 2 0 0] = 1"
proof -
  have "applyMargins [sample_at 0 0 0, sample_at 1 0 0, sample_at 2 0 0, sample_at 3 0 0] 0
      = Inr [sample_at 1 0 0, sample_at 2 0 0]"
    using applyMargins_offset_zero
      [of "[sample_at 0 0 0, sample_at 1 0 0, sample_at 2 0 0, sample_at 3 0 0]"]
    by simp
  then show ?thesis
    by (simp add: segmentLength_def pointDistance_on_x_axis)
qed

text \<open>
  C3. A segment whose arc length is strictly below twice the offset is returned as it is:
  no trimming and no error.
\<close>

theorem applyMargins_short_identity:
  "segmentLength segment < 2 * offset \<Longrightarrow> applyMargins segment offset = Inr segment"
  by (simp add: applyMargins_def)

theorem applyMargins_short_identity_witness:
  "segmentLength [sample_at 0 0 0, sample_at 1 0 0] < 2 * 1
   \<and> applyMargins [sample_at 0 0 0, sample_at 1 0 0] 1
       = Inr [sample_at 0 0 0, sample_at 1 0 0]"
proof -
  have h: "segmentLength [sample_at 0 0 0, sample_at 1 0 0] < 2 * 1"
    by (simp add: segmentLength_def pointDistance_on_x_axis)
  show ?thesis
    using h applyMargins_short_identity [OF h] by simp
qed

text \<open>
  C4, a segment of one pose, at the offset zero: the arc length 0 is not strictly below
  \<open>2 * 0\<close>, the forward loop has no step to take, and \<open>applyMargins\<close> throws its
  \<open>logic_error\<close> instead of returning the segment.
\<close>

theorem applyMargins_single_pose_zero_offset_throws:
  "applyMargins [p] 0 = Inl (logic_error ''Something went wrong with margins'')"
  by (simp add: applyMargins_def segmentLength_single forward_scan.simps)

text \<open>
  C5, the failure branch under the precondition of the claim: for the one-pose segment at
  the origin and the offset zero, the arc length is at least twice the offset and the
  offset is not negative, and the forward scan finds no cut point.
\<close>

theorem applyMargins_failure_branch_reached:
  "2 * 0 \<le> segmentLength [sample_at 0 0 0]
   \<and> fst (forward_scan [sample_at 0 0 0] 0 1) = 0
   \<and> applyMargins [sample_at 0 0 0] 0 = Inl (logic_error ''Something went wrong with margins'')"
  by (simp add: applyMargins_def segmentLength_single forward_scan.simps)

text \<open>
  C10. At the offset zero a segment of \<open>n \<ge> 2\<close> samples is not returned unchanged: the
  forward scan stops at index 1 and the reverse scan at index \<open>n - 2\<close>, both with the
  interpolation distance 0, and the result is the samples of index 1 to \<open>n - 2\<close> (none
  when \<open>n = 2\<close>).
\<close>

theorem applyMargins_zero_offset_drops_ends:
  assumes "2 \<le> length segment"
  shows "forward_scan segment 0 1 = (1, 0)
       \<and> reverse_scan segment 0 (length segment - 1) = (length segment - 2, 0)
       \<and> applyMargins segment 0 = Inr (map (\<lambda>i. segment ! i) [1 ..< length segment - 1])
       \<and> applyMargins segment 0 \<noteq> Inr segment"
proof -
  have a: "applyMargins segment 0 = Inr (map (\<lambda>i. segment ! i) [1 ..< length segment - 1])"
    using assms by (rule applyMargins_offset_zero)
  have "length (map (\<lambda>i. segment ! i) [1 ..< length segment - 1]) \<noteq> length segment"
    using assms by simp
  then have "map (\<lambda>i. segment ! i) [1 ..< length segment - 1] \<noteq> segment"
    by metis
  with a forward_scan_zero [OF assms] reverse_scan_zero_last [OF assms] show ?thesis
    by simp
qed

theorem applyMargins_zero_offset_drops_ends_witness:
  "2 \<le> length [sample_at 0 0 0, sample_at 1 0 0, sample_at 2 0 0]
   \<and> applyMargins [sample_at 0 0 0, sample_at 1 0 0, sample_at 2 0 0] 0 = Inr [sample_at 1 0 0]"
  using applyMargins_zero_offset_drops_ends
    [of "[sample_at 0 0 0, sample_at 1 0 0, sample_at 2 0 0]"]
  by simp

section \<open>Facts about the sequencing code\<close>

subsection \<open>The loop of \<open>longestSegment\<close>\<close>

lemma end_displacement_nonneg: "0 \<le> end_displacement s"
  by (simp add: end_displacement_def squaredNorm_nonneg)

lemma running_max_invariant:
  fixes f :: "nat \<Rightarrow> real"
  assumes nonneg: "\<And>i. 0 \<le> f i"
  shows "0 < k \<Longrightarrow>
    (case fold (\<lambda>i (max_index, max_dist).
                  let d = f i in if d > max_dist then (i, d) else (max_index, max_dist))
            [0 ..< k] (0, 0)
     of (mi, md) \<Rightarrow> mi < k \<and> md = f mi \<and> (\<forall>j<k. f j \<le> md) \<and> (\<forall>j<mi. f j < md))"
proof (induction k)
  case 0
  then show ?case by simp
next
  case (Suc k)
  show ?case
  proof (cases "k = 0")
    case True
    with nonneg [of 0] show ?thesis by (auto simp: Let_def)
  next
    case False
    with Suc.IH show ?thesis
      by (auto simp: Let_def less_Suc_eq split: prod.splits)
  qed
qed

subsection \<open>The loop of \<open>sequence\<close>\<close>

lemma steps_upto_Suc:
  "1 \<le> k \<Longrightarrow> steps_upto end_points (Suc k) = sequence_step end_points k (steps_upto end_points k)"
  by (simp add: steps_upto_def)

lemma steps_upto_one: "steps_upto end_points (Suc 0) = [\<lparr>seq_id = 0, from_a = True\<rparr>]"
  by (simp add: steps_upto_def)

lemma length_steps_upto: "1 \<le> k \<Longrightarrow> length (steps_upto end_points k) = k"
proof (induction k)
  case 0
  then show ?case by simp
next
  case (Suc k)
  show ?case
  proof (cases "k = 0")
    case True
    then show ?thesis by (simp add: steps_upto_def)
  next
    case False
    with Suc.IH show ?thesis
      by (simp add: steps_upto_Suc sequence_step_def Let_def)
  qed
qed

lemma steps_upto_prefix:
  "1 \<le> k \<Longrightarrow> k \<le> m \<Longrightarrow> take k (steps_upto end_points m) = steps_upto end_points k"
proof (induction m)
  case 0
  then show ?case by simp
next
  case (Suc m)
  show ?case
  proof (cases "k = Suc m")
    case True
    with Suc.prems show ?thesis by (simp add: length_steps_upto)
  next
    case False
    with Suc.prems have km: "k \<le> m" "1 \<le> m" by simp_all
    with Suc.IH Suc.prems have "take k (steps_upto end_points m) = steps_upto end_points k"
      by simp
    with km show ?thesis
      by (simp add: steps_upto_Suc sequence_step_def Let_def length_steps_upto)
  qed
qed

lemma steps_upto_nth:
  assumes "i < k" "k \<le> m"
  shows "steps_upto end_points m ! i = steps_upto end_points k ! i"
proof -
  have "1 \<le> k" using assms by simp
  then have "take k (steps_upto end_points m) = steps_upto end_points k"
    using assms by (intro steps_upto_prefix)
  then have "steps_upto end_points k ! i = take k (steps_upto end_points m) ! i"
    by simp
  also have "\<dots> = steps_upto end_points m ! i"
    using assms by simp
  finally show ?thesis by simp
qed

lemma sequence_steps_upto:
  "end_points \<noteq> [] \<Longrightarrow> sequence_steps end_points = steps_upto end_points (length end_points)"
  by (simp add: sequence_steps_def steps_upto_def)

lemma length_sequence_steps:
  "end_points \<noteq> [] \<Longrightarrow> length (sequence_steps end_points) = length end_points"
  by (simp add: sequence_steps_upto length_steps_upto Suc_le_eq)

lemma sequence_steps_first:
  assumes "end_points \<noteq> []"
  shows "sequence_steps end_points ! 0 = \<lparr>seq_id = 0, from_a = True\<rparr>"
proof -
  have "steps_upto end_points (length end_points) ! 0 = steps_upto end_points 1 ! 0"
    using assms by (intro steps_upto_nth) (simp_all add: Suc_le_eq)
  with assms show ?thesis
    by (simp add: sequence_steps_upto steps_upto_one)
qed

lemma sequence_steps_next:
  assumes "1 \<le> i" "i < length end_points"
  shows "sequence_steps end_points ! i =
           \<lparr>seq_id = i,
            from_a =
              (squaredNorm (vsub (end_a (end_points ! i))
                 (current_position end_points (sequence_steps end_points ! (i - 1))))
               < squaredNorm (vsub (end_b (end_points ! i))
                   (current_position end_points (sequence_steps end_points ! (i - 1)))))\<rparr>"
proof -
  let ?n = "length end_points"
  have ne: "end_points \<noteq> []" using assms by auto
  have prev: "steps_upto end_points ?n ! (i - 1) = steps_upto end_points i ! (i - 1)"
    using assms by (intro steps_upto_nth) simp_all
  have li: "length (steps_upto end_points i) = i"
    using assms by (simp add: length_steps_upto)
  then have nonempty: "steps_upto end_points i \<noteq> []"
    using assms by auto
  have last: "last (steps_upto end_points i) = steps_upto end_points ?n ! (i - 1)"
    using prev li nonempty by (simp add: last_conv_nth)
  have "steps_upto end_points ?n ! i = steps_upto end_points (Suc i) ! i"
    using assms by (intro steps_upto_nth) simp_all
  also have "\<dots> = sequence_step end_points i (steps_upto end_points i) ! i"
    using assms by (simp add: steps_upto_Suc)
  finally show ?thesis
    using li last ne
    by (simp add: sequence_steps_upto sequence_step_def Let_def nth_append)
qed

lemma seq_id_sequence_steps:
  assumes "i < length end_points"
  shows "seq_id (sequence_steps end_points ! i) = i"
proof (cases "i = 0")
  case True
  with assms sequence_steps_first [of end_points] show ?thesis by auto
next
  case False
  with assms sequence_steps_next [of i end_points] show ?thesis by simp
qed

subsection \<open>Reconstruction\<close>

lemma makeSequence_loop_in_range:
  "\<forall>seq\<in>set seqs. seq_id seq < length end_points
       \<and> end_id (end_points ! seq_id seq) < length inp \<Longrightarrow>
   makeSequence_loop inp seqs end_points = Inr (map (placed inp end_points) seqs)"
  by (induction seqs) (simp_all add: placed_def Let_def)

lemma map_position_reversePathAndPoses:
  "map position (reversePathAndPoses path) = rev (map position path)"
  by (simp add: reversePathAndPoses_def poseEigenToMsg_def poseMsgToEigen_def Let_def
      rev_map comp_def)

lemma set_position_reversePathAndPoses:
  "set (map position (reversePathAndPoses path)) = set (map position path)"
  by (simp only: map_position_reversePathAndPoses set_rev)

lemma length_reversePathAndPoses: "length (reversePathAndPoses path) = length path"
  by (simp add: reversePathAndPoses_def)

lemma end_id_toEndPoints: "map end_id (toEndPoints segments q) = [0 ..< length segments]"
  by (simp add: toEndPoints_def Let_def comp_def map_idI)

lemma sequence_unfold:
  assumes "input \<noteq> []" "[] \<notin> set input"
  shows "\<exists>end_points.
           mset (map end_id end_points) = mset [0 ..< length input]
         \<and> sequence solver input
             = Inr (map (placed input end_points) (sequence_steps end_points))"
proof -
  define end_points where "end_points = sort_key lateral_key (toEndPoints (toEigens input)
      (averageQuaternion solver (toEigens input ! longestSegment (toEigens input))))"
  have ids: "mset (map end_id end_points) = mset [0 ..< length input]"
  proof -
    have "mset (map end_id end_points) = image_mset end_id (mset end_points)" by simp
    also have "\<dots> = image_mset end_id (mset (toEndPoints (toEigens input)
      (averageQuaternion solver (toEigens input ! longestSegment (toEigens input)))))"
      by (simp add: end_points_def)
    also have "\<dots> = mset (map end_id (toEndPoints (toEigens input)
      (averageQuaternion solver (toEigens input ! longestSegment (toEigens input)))))"
      by simp
    finally show ?thesis
      by (simp only: end_id_toEndPoints) (simp add: toEigens_def)
  qed
  then have len: "length end_points = length input"
    by (metis length_map length_upt mset_eq_length minus_nat.diff_0)
  with assms have ne: "end_points \<noteq> []" by auto
  have range: "\<forall>seq\<in>set (sequence_steps end_points). seq_id seq < length end_points
       \<and> end_id (end_points ! seq_id seq) < length input"
  proof
    fix seq assume "seq \<in> set (sequence_steps end_points)"
    then obtain i where i: "i < length end_points" "seq = sequence_steps end_points ! i"
      using length_sequence_steps [OF ne] by (metis in_set_conv_nth)
    then have sid: "seq_id seq = i" by (simp add: seq_id_sequence_steps)
    have "end_id (end_points ! i) \<in> set (map end_id end_points)"
      using i by simp
    also have "set (map end_id end_points) = set [0 ..< length input]"
      using ids by (rule mset_eq_setD)
    finally have "end_id (end_points ! i) < length input" by simp
    with i sid show "seq_id seq < length end_points
       \<and> end_id (end_points ! seq_id seq) < length input" by simp
  qed
  have "sequence solver input = makeSequence input (sequence_steps end_points) end_points"
    using assms by (simp add: sequence_def Let_def end_points_def)
  also have "\<dots> = Inr (map (placed input end_points) (sequence_steps end_points))"
    using range len length_sequence_steps [OF ne]
    by (simp add: makeSequence_def makeSequence_loop_in_range)
  finally show ?thesis using ids by blast
qed

subsection \<open>The average of copies of one rotation\<close>

text \<open>
  For \<open>N\<close> copies of a unit quaternion with coefficient vector \<open>u\<close>, \<open>Q_prime\<close> is the
  rank-one matrix \<open>N u u\<^sup>T\<close>. In an orthonormal eigen-decomposition of it every column
  \<open>v\<close> satisfies \<open>\<lambda> v = N (u \<cdot> v) u\<close>; some column is not orthogonal to \<open>u\<close>, its
  eigenvalue is \<open>N > 0\<close>, so the loop over the eigenvalues selects a column with a positive
  eigenvalue, and such a column is \<open>u\<close> or \<open>-u\<close>.
\<close>

lemma sum_lessThan_4: "(\<Sum>k<(4::nat). f k) = f 0 + f 1 + f 2 + (f 3 :: real)"
  by (simp add: numeral_eq_Suc)

lemma coeffs_unit:
  "quat_squaredNorm q = 1 \<Longrightarrow> (\<Sum>k<4. coeffs q k * coeffs q k) = 1"
  by (simp add: sum_lessThan_4 coeffs_def quat_squaredNorm_def)

lemma Q_prime_replicate:
  "Q_prime (replicate N q) i j = real N * coeffs q i * coeffs q j"
  by (simp add: Q_prime_def Q_matrix_def)

lemma max_eigen_invariant:
  "case max_eigen vals n of (mi, mv) \<Rightarrow>
     (mi = 0 \<and> mv = 0 \<and> (\<forall>j<n. vals j \<le> 0))
   \<or> (mi < n \<and> mv = vals mi \<and> 0 < mv \<and> (\<forall>j<n. vals j \<le> mv))"
proof (induction n)
  case 0
  show ?case by (simp add: max_eigen_def)
next
  case (Suc n)
  then show ?case
    by (auto simp: max_eigen_def less_Suc_eq split: prod.splits)
qed

lemma max_eigen_positive:
  assumes "j < n" "0 < vals j"
  shows "fst (max_eigen vals n) < n \<and> 0 < vals (fst (max_eigen vals n))"
  using max_eigen_invariant [where vals = vals and n = n] assms
  by (fastforce split: prod.splits)

lemma rank_one_eigenvector:
  fixes u :: "nat \<Rightarrow> real" and V :: "nat \<Rightarrow> nat \<Rightarrow> real"
  assumes ortho: "\<forall>i\<in>{..<4}. \<forall>j\<in>{..<4}. (\<Sum>k<4. V k i * V k j) = (if i = j then 1 else 0)"
    and decomp: "\<forall>i\<in>{..<4}. \<forall>j\<in>{..<4}. c * u i * u j = (\<Sum>k<4. V i k * vals k * V j k)"
    and unit: "(\<Sum>k<4. u k * u k) = 1"
    and c: "0 < c"
  shows "\<exists>s. (s = 1 \<or> s = -1)
           \<and> (\<forall>r<4. V r (fst (max_eigen vals 4)) = s * u r)"
proof -
  define d where "d j = (\<Sum>k<4. V k j * u k)" for j
  have E1: "vals j * V r j = c * u r * d j" if r: "r < 4" and j: "j < 4" for r j
  proof -
    have "c * u r * d j = (\<Sum>s<4. (c * u r * u s) * V s j)"
      by (simp add: d_def sum_distrib_left algebra_simps)
    also have "\<dots> = (\<Sum>s<4. (\<Sum>k<4. V r k * vals k * V s k) * V s j)"
      using decomp r by (intro sum.cong) auto
    also have "\<dots> = (\<Sum>s<4. \<Sum>k<4. (V r k * vals k * V s k) * V s j)"
      by (simp only: sum_distrib_right)
    also have "\<dots> = (\<Sum>s<4. \<Sum>k<4. V r k * vals k * (V s k * V s j))"
      by (simp only: mult.assoc)
    also have "\<dots> = (\<Sum>k<4. \<Sum>s<4. V r k * vals k * (V s k * V s j))"
      by (rule sum.swap)
    also have "\<dots> = (\<Sum>k<4. V r k * vals k * (\<Sum>s<4. V s k * V s j))"
      by (simp add: sum_distrib_left)
    also have "\<dots> = (\<Sum>k<4. V r k * vals k * (if k = j then 1 else 0))"
      using ortho j by (intro sum.cong) auto
    also have "\<dots> = (\<Sum>k<4. if k = j then V r k * vals k else 0)"
      by (intro sum.cong) auto
    also have "\<dots> = V r j * vals j"
      using j by simp
    finally show ?thesis by (simp add: mult.commute)
  qed
  have E2: "vals j = c * d j * d j" if j: "j < 4" for j
  proof -
    have "vals j = vals j * (\<Sum>r<4. V r j * V r j)"
      using ortho j by simp
    also have "\<dots> = (\<Sum>r<4. (vals j * V r j) * V r j)"
      by (simp add: sum_distrib_left algebra_simps)
    also have "\<dots> = (\<Sum>r<4. (c * u r * d j) * V r j)"
      using E1 j by (intro sum.cong) auto
    also have "\<dots> = c * d j * (\<Sum>r<4. V r j * u r)"
      by (simp add: sum_distrib_left algebra_simps)
    finally show ?thesis by (simp add: d_def)
  qed
  have E3: "vals j * d j = c * d j" if j: "j < 4" for j
  proof -
    have "vals j * d j = (\<Sum>r<4. (vals j * V r j) * u r)"
      by (simp add: d_def sum_distrib_left algebra_simps)
    also have "\<dots> = (\<Sum>r<4. (c * u r * d j) * u r)"
      using E1 j by (intro sum.cong) auto
    also have "\<dots> = c * d j * (\<Sum>r<4. u r * u r)"
      by (simp add: sum_distrib_left algebra_simps)
    finally show ?thesis by (simp add: unit)
  qed
  have "\<exists>i<4. u i \<noteq> 0"
  proof (rule ccontr)
    assume "\<not> (\<exists>i<4. u i \<noteq> 0)"
    then have "(\<Sum>k<4. u k * u k) = 0" by simp
    with unit show False by simp
  qed
  then obtain i where i: "i < 4" "u i \<noteq> 0" by blast
  have "\<exists>k<4. d k \<noteq> 0"
  proof (rule ccontr)
    assume "\<not> (\<exists>k<4. d k \<noteq> 0)"
    then have z: "\<And>k. k < 4 \<Longrightarrow> d k = 0" by blast
    have "c * u i * u i = (\<Sum>k<4. V i k * (vals k * V i k))"
      using decomp i by (simp add: algebra_simps)
    also have "\<dots> = (\<Sum>k<4. V i k * (c * u i * d k))"
      using E1 i by (intro sum.cong) auto
    also have "\<dots> = 0"
      using z by simp
    finally show False using c i by simp
  qed
  then obtain k where k: "k < 4" "d k \<noteq> 0" by blast
  have "0 < d k * d k"
    using k(2) by (metis not_real_square_gt_zero)
  then have "0 < vals k"
    using E2 [OF k(1)] c by (simp add: mult.assoc)
  with k have m: "fst (max_eigen vals 4) < 4" "0 < vals (fst (max_eigen vals 4))"
    using max_eigen_positive [where j = k and n = 4 and vals = vals] by simp_all
  define m where "m = fst (max_eigen vals 4)"
  have m4: "m < 4" and mpos: "0 < vals m"
    using m by (simp_all add: m_def)
  have dm: "d m \<noteq> 0"
    using E2 [OF m4] mpos by auto
  with E3 [OF m4] have vm: "vals m = c" by simp
  with E2 [OF m4] c have "d m * d m = 1" by simp
  then have s: "d m = 1 \<or> d m = -1"
    by (simp add: square_eq_1_iff)
  have "V r m = d m * u r" if "r < 4" for r
    using E1 [OF that m4] vm c by simp
  with s show ?thesis
    unfolding m_def by blast
qed

lemma average_of_copies:
  assumes unit: "quat_squaredNorm q = 1" and N: "1 \<le> N"
    and solver: "selfadjoint_eigen (Q_prime (replicate N q)) (solver (Q_prime (replicate N q)))"
  shows "\<exists>s. (s = 1 \<or> s = -1)
           \<and> average solver (replicate N q)
               = Quaterniond (s * qw q) (s * qx q) (s * qy q) (s * qz q)"
proof -
  obtain vals V where r: "solver (Q_prime (replicate N q)) = (vals, V)"
    by (cases "solver (Q_prime (replicate N q))")
  have ortho: "\<forall>i\<in>{..<4}. \<forall>j\<in>{..<4}. (\<Sum>k<4. V k i * V k j) = (if i = j then 1 else 0)"
    using solver by (simp add: selfadjoint_eigen_def r)
  have decomp: "\<forall>i\<in>{..<4}. \<forall>j\<in>{..<4}.
      real N * coeffs q i * coeffs q j = (\<Sum>k<4. V i k * vals k * V j k)"
    using solver by (simp add: selfadjoint_eigen_def r Q_prime_replicate)
  have "0 < real N" using N by simp
  from rank_one_eigenvector [OF ortho decomp coeffs_unit [OF unit] this]
  obtain s where s: "s = 1 \<or> s = -1"
    and col: "\<forall>r<4. V r (fst (max_eigen vals 4)) = s * coeffs q r"
    by blast
  have "average solver (replicate N q)
      = Quaterniond (s * coeffs q 3) (s * coeffs q 0) (s * coeffs q 1) (s * coeffs q 2)"
    using col by (simp add: average_def r Let_def)
  then have "average solver (replicate N q)
      = Quaterniond (s * qw q) (s * qx q) (s * qy q) (s * qz q)"
    by (simp add: coeffs_def)
  with s show ?thesis by blast
qed

lemma average_single:
  assumes "quat_squaredNorm q = 1"
    and "selfadjoint_eigen (Q_prime [q]) (solver (Q_prime [q]))"
  shows "average solver [q] = q \<or> average solver [q] = quat_neg q"
proof -
  have one: "replicate 1 q = [q]" by simp
  have "1 \<le> (1::nat)" by simp
  from average_of_copies [where solver = solver and N = 1, OF assms(1) this] assms(2)
  obtain s where "s = 1 \<or> s = -1"
    "average solver [q] = Quaterniond (s * qw q) (s * qx q) (s * qy q) (s * qz q)"
    unfolding one by blast
  then show ?thesis
    by (auto simp: quat_neg_def)
qed

lemma Q_prime_identity_pair:
  "Q_prime (replicate 2 (Quaterniond 1 0 0 0)) i j = (if i = 3 \<and> j = 3 then 2 else 0)"
  if "i < 4" "j < 4"
  unfolding Q_prime_replicate coeffs_def using that
  by (auto simp: less_Suc_eq numeral_eq_Suc)

lemma diag_solver_identity_pair:
  "selfadjoint_eigen (Q_prime (replicate 2 (Quaterniond 1 0 0 0)))
     (diag_solver (Q_prime (replicate 2 (Quaterniond 1 0 0 0))))"
  unfolding selfadjoint_eigen_def diag_solver_def
  by (auto simp: Q_prime_identity_pair sum_lessThan_4)

subsection \<open>The scenario of three parallel segments\<close>

lemma toEigens_scenario:
  "toEigens scenario_input =
     [[sample_at 0 0 0, sample_at 1 0 0], [sample_at 0 1 0, sample_at 1 1 0],
      [sample_at 0 2 0, sample_at 1 2 0]]"
  by (simp add: scenario_input_def toEigens_def toEigen_def poseMsgToEigen_def pose_at_def
      sample_at_def)

lemma longestSegment_scenario: "longestSegment (toEigens scenario_input) = 0"
  unfolding toEigens_scenario longestSegment_def
  by (simp add: upt_conv_Cons end_displacement_def sample_at_def squaredNorm_def vsub_def
      numeral_eq_Suc Let_def)

lemma rotate_vec_real_axis:
  "s = 1 \<or> s = -1 \<Longrightarrow> rotate_vec (quat_inverse (Quaterniond s 0 0 0)) v = v"
  by (auto simp: rotate_vec_def quat_inverse_def quat_squaredNorm_def Let_def)

lemma toEndPoints_scenario:
  "s = 1 \<or> s = -1 \<Longrightarrow>
   toEndPoints (toEigens scenario_input) (Quaterniond s 0 0 0) = scenario_end_points"
  unfolding toEigens_scenario toEndPoints_def Let_def
  by (simp add: rotate_vec_real_axis upt_conv_Cons numeral_eq_Suc sample_at_def
      scenario_end_points_def)

lemma sort_scenario: "sort_key lateral_key scenario_end_points = scenario_end_points"
  by (simp add: scenario_end_points_def lateral_key_def)

lemma sequence_steps_scenario:
  "sequence_steps scenario_end_points =
     [\<lparr>seq_id = 0, from_a = True\<rparr>, \<lparr>seq_id = 1, from_a = False\<rparr>, \<lparr>seq_id = 2, from_a = True\<rparr>]"
  unfolding sequence_steps_def scenario_end_points_def
  by (simp add: upt_conv_Cons numeral_eq_Suc sequence_step_def current_position_def Let_def
      squaredNorm_def vsub_def)

lemma makeSequence_scenario:
  "makeSequence scenario_input
     [\<lparr>seq_id = 0, from_a = True\<rparr>, \<lparr>seq_id = 1, from_a = False\<rparr>, \<lparr>seq_id = 2, from_a = True\<rparr>]
     scenario_end_points
   = Inr [[pose_at 0 0 0, pose_at 1 0 0],
          reversePathAndPoses [pose_at 0 1 0, pose_at 1 1 0],
          [pose_at 0 2 0, pose_at 1 2 0]]"
  by (simp add: makeSequence_def scenario_input_def scenario_end_points_def Let_def)

section \<open>Claims on the sequencing code\<close>

text \<open>
  C1. For a non-empty list of (non-empty) segments \<open>sequence\<close> returns a list of the same
  length that is a rearrangement \<open>ps\<close> of the input in which every segment is either kept
  or replaced by its reversal; the positions of a segment are the same, in the same or in
  the reverse order, and the multiset of the position sets of the segments is that of the
  input. This holds for every eigen-solver.
\<close>

theorem sequence_permutation:
  assumes "input \<noteq> []" "[] \<notin> set input"
  shows "\<exists>out ps. sequence solver input = Inr out
       \<and> length out = length input
       \<and> mset ps = mset input
       \<and> list_all2 (\<lambda>s t. t = s \<or> t = reversePathAndPoses s) ps out
       \<and> list_all2 (\<lambda>s t. map position t = map position s
                         \<or> map position t = rev (map position s)) ps out
       \<and> mset (map (\<lambda>s. set (map position s)) out)
           = mset (map (\<lambda>s. set (map position s)) input)"
proof -
  from sequence_unfold [OF assms, of solver] obtain end_points where
    ids: "mset (map end_id end_points) = mset [0 ..< length input]" and
    out: "sequence solver input = Inr (map (placed input end_points) (sequence_steps end_points))"
    by blast
  define out where "out = map (placed input end_points) (sequence_steps end_points)"
  define ps where "ps = map (\<lambda>e. input ! end_id e) end_points"
  have len: "length end_points = length input"
    using ids by (metis length_map length_upt mset_eq_length minus_nat.diff_0)
  with assms have ne: "end_points \<noteq> []" by auto
  have lsteps: "length (sequence_steps end_points) = length end_points"
    using ne by (rule length_sequence_steps)
  have "mset ps = image_mset (\<lambda>j. input ! j) (mset (map end_id end_points))"
    by (simp add: ps_def multiset.map_comp comp_def)
  also have "\<dots> = image_mset (\<lambda>j. input ! j) (mset [0 ..< length input])"
    by (simp only: ids)
  also have "\<dots> = mset (map (\<lambda>j. input ! j) [0 ..< length input])"
    by simp
  finally have perm: "mset ps = mset input"
    by (simp add: map_nth)
  have pointwise: "out ! i = ps ! i \<or> out ! i = reversePathAndPoses (ps ! i)"
    if "i < length end_points" for i
    using that lsteps
    by (simp add: out_def ps_def placed_def Let_def seq_id_sequence_steps)
  have kept: "list_all2 (\<lambda>s t. t = s \<or> t = reversePathAndPoses s) ps out"
    using pointwise lsteps by (auto simp: list_all2_conv_all_nth out_def ps_def)
  then have pos: "list_all2 (\<lambda>s t. map position t = map position s
                         \<or> map position t = rev (map position s)) ps out"
    by (rule list_all2_mono) (auto simp: map_position_reversePathAndPoses)
  have "map (\<lambda>s. set (map position s)) out = map (\<lambda>s. set (map position s)) ps"
  proof (rule nth_equalityI)
    show "length (map (\<lambda>s. set (map position s)) out) = length (map (\<lambda>s. set (map position s)) ps)"
      using lsteps by (simp add: out_def ps_def)
  next
    fix i assume "i < length (map (\<lambda>s. set (map position s)) out)"
    then have i: "i < length end_points" using lsteps by (simp add: out_def)
    then have "set (map position (out ! i)) = set (map position (ps ! i))"
      using pointwise [OF i] set_position_reversePathAndPoses [of "ps ! i"] by metis
    with i lsteps show "map (\<lambda>s. set (map position s)) out ! i = map (\<lambda>s. set (map position s)) ps ! i"
      by (simp add: out_def ps_def)
  qed
  then have "mset (map (\<lambda>s. set (map position s)) out)
           = image_mset (\<lambda>s. set (map position s)) (mset ps)"
    by simp
  then have sets: "mset (map (\<lambda>s. set (map position s)) out)
           = mset (map (\<lambda>s. set (map position s)) input)"
    by (simp add: perm)
  have "length out = length input"
    using lsteps len by (simp add: out_def)
  with out perm kept pos sets show ?thesis
    unfolding out_def [symmetric] by blast
qed

theorem sequence_permutation_witness:
  "scenario_input \<noteq> [] \<and> [] \<notin> set scenario_input
   \<and> (\<exists>out. sequence diag_solver scenario_input = Inr out \<and> length out = 3
         \<and> mset (map (\<lambda>s. set (map position s)) out)
           = mset (map (\<lambda>s. set (map position s)) scenario_input))"
proof -
  have h: "scenario_input \<noteq> []" "[] \<notin> set scenario_input"
    by (simp_all add: scenario_input_def)
  have l: "length scenario_input = 3"
    by (simp add: scenario_input_def)
  from sequence_permutation [OF h, of diag_solver] l h show ?thesis
    by auto
qed

text \<open>
  C6. On the sorted records, the first step is record 0 with \<open>from_a = True\<close>. For every
  later record \<open>i\<close>, with the current position the \<open>b\<close> end of record \<open>i - 1\<close> when the
  previous step started at \<open>a\<close> and its \<open>a\<close> end otherwise, the step is record \<open>i\<close> with
  \<open>from_a\<close> the strict comparison of the squared distances to \<open>a\<close> and to \<open>b\<close>; equal
  distances give \<open>from_a = False\<close>.
\<close>

theorem sequence_steps_rule:
  assumes "end_points \<noteq> []"
  shows "length (sequence_steps end_points) = length end_points
       \<and> sequence_steps end_points ! 0 = \<lparr>seq_id = 0, from_a = True\<rparr>
       \<and> (\<forall>i. 1 \<le> i \<and> i < length end_points \<longrightarrow>
            (let prev = sequence_steps end_points ! (i - 1);
                 current_pos = (if from_a prev then end_b (end_points ! (i - 1))
                                else end_a (end_points ! (i - 1)));
                 dist_a = squaredNorm (vsub (end_a (end_points ! i)) current_pos);
                 dist_b = squaredNorm (vsub (end_b (end_points ! i)) current_pos)
             in seq_id (sequence_steps end_points ! i) = i
              \<and> from_a (sequence_steps end_points ! i) = (dist_a < dist_b)
              \<and> (dist_a = dist_b \<longrightarrow> \<not> from_a (sequence_steps end_points ! i))))"
proof -
  have "seq_id (sequence_steps end_points ! (i - 1)) = i - 1" if "i < length end_points" for i
    using that by (intro seq_id_sequence_steps) simp
  then show ?thesis
    using assms
    by (simp add: length_sequence_steps sequence_steps_first sequence_steps_next
        current_position_def Let_def)
qed

theorem sequence_steps_rule_witness:
  "scenario_end_points \<noteq> []
   \<and> sequence_steps scenario_end_points ! 0 = \<lparr>seq_id = 0, from_a = True\<rparr>
   \<and> sequence_steps scenario_end_points ! 1 = \<lparr>seq_id = 1, from_a = False\<rparr>"
proof -
  have h: "scenario_end_points \<noteq> []"
    by (simp add: scenario_end_points_def)
  have l: "length scenario_end_points = 3"
    by (simp add: scenario_end_points_def)
  from sequence_steps_rule [OF h]
  have 0: "sequence_steps scenario_end_points ! 0 = \<lparr>seq_id = 0, from_a = True\<rparr>"
    and 1: "\<forall>i. 1 \<le> i \<and> i < length scenario_end_points \<longrightarrow>
            (let prev = sequence_steps scenario_end_points ! (i - 1);
                 current_pos = (if from_a prev then end_b (scenario_end_points ! (i - 1))
                                else end_a (scenario_end_points ! (i - 1)));
                 dist_a = squaredNorm (vsub (end_a (scenario_end_points ! i)) current_pos);
                 dist_b = squaredNorm (vsub (end_b (scenario_end_points ! i)) current_pos)
             in seq_id (sequence_steps scenario_end_points ! i) = i
              \<and> from_a (sequence_steps scenario_end_points ! i) = (dist_a < dist_b)
              \<and> (dist_a = dist_b \<longrightarrow> \<not> from_a (sequence_steps scenario_end_points ! i)))"
    by simp_all
  from 1 [rule_format, of 1] 0 l
  have "seq_id (sequence_steps scenario_end_points ! 1) = 1
      \<and> \<not> from_a (sequence_steps scenario_end_points ! 1)"
    by (simp add: Let_def scenario_end_points_def squaredNorm_def vsub_def)
  then have "sequence_steps scenario_end_points ! 1 = \<lparr>seq_id = 1, from_a = False\<rparr>"
    by (cases "sequence_steps scenario_end_points ! 1") simp
  with h 0 show ?thesis by simp
qed

text \<open>
  C7. The three parallel segments with identity orientation come out as the first segment
  forward, the second reversed (its positions are \<open>(1,1,0)\<close>, then \<open>(0,1,0)\<close>) and the third
  forward, for every eigen-solver that decomposes \<open>Q_prime\<close> of the first segment's
  orientations.
\<close>

theorem sequence_scenario:
  assumes "selfadjoint_eigen (Q_prime (replicate 2 (Quaterniond 1 0 0 0)))
             (solver (Q_prime (replicate 2 (Quaterniond 1 0 0 0))))"
  shows "sequence solver
           [[pose_at 0 0 0, pose_at 1 0 0], [pose_at 0 1 0, pose_at 1 1 0],
            [pose_at 0 2 0, pose_at 1 2 0]]
         = Inr [[pose_at 0 0 0, pose_at 1 0 0],
                reversePathAndPoses [pose_at 0 1 0, pose_at 1 1 0],
                [pose_at 0 2 0, pose_at 1 2 0]]
       \<and> map position (reversePathAndPoses [pose_at 0 1 0, pose_at 1 1 0])
           = [Vector3d 1 1 0, Vector3d 0 1 0]"
proof -
  have u: "quat_squaredNorm (Quaterniond 1 0 0 0) = 1"
    by (simp add: quat_squaredNorm_def)
  have "map rotation (toEigens scenario_input ! 0) = replicate 2 (Quaterniond 1 0 0 0)"
    by (simp add: toEigens_scenario sample_at_def numeral_eq_Suc)
  then have avg: "averageQuaternion solver (toEigens scenario_input ! 0)
             = average solver (replicate 2 (Quaterniond 1 0 0 0))"
    by (simp add: averageQuaternion_def)
  from average_of_copies [where solver = solver, OF u _ assms]
  obtain s where s: "s = 1 \<or> s = -1"
    and a: "average solver (replicate 2 (Quaterniond 1 0 0 0)) = Quaterniond s 0 0 0"
    by auto
  have ne: "scenario_input \<noteq> []" "[] \<notin> set scenario_input"
    by (simp_all add: scenario_input_def)
  have "sequence solver scenario_input
      = makeSequence scenario_input (sequence_steps scenario_end_points) scenario_end_points"
    using ne s
    by (simp add: sequence_def Let_def longestSegment_scenario avg a toEndPoints_scenario
        sort_scenario)
  then have "sequence solver scenario_input
      = Inr [[pose_at 0 0 0, pose_at 1 0 0],
             reversePathAndPoses [pose_at 0 1 0, pose_at 1 1 0],
             [pose_at 0 2 0, pose_at 1 2 0]]"
    by (simp only: sequence_steps_scenario makeSequence_scenario)
  then show ?thesis
    by (simp add: scenario_input_def map_position_reversePathAndPoses pose_at_def)
qed

theorem sequence_scenario_witness:
  "selfadjoint_eigen (Q_prime (replicate 2 (Quaterniond 1 0 0 0)))
             (diag_solver (Q_prime (replicate 2 (Quaterniond 1 0 0 0))))
   \<and> sequence diag_solver
           [[pose_at 0 0 0, pose_at 1 0 0], [pose_at 0 1 0, pose_at 1 1 0],
            [pose_at 0 2 0, pose_at 1 2 0]]
         = Inr [[pose_at 0 0 0, pose_at 1 0 0],
                reversePathAndPoses [pose_at 0 1 0, pose_at 1 1 0],
                [pose_at 0 2 0, pose_at 1 2 0]]"
  using sequence_scenario [where solver = diag_solver, OF diag_solver_identity_pair]
    diag_solver_identity_pair
  by simp

text \<open>
  C8. For a non-empty list of segments \<open>longestSegment\<close> returns an index of the list
  whose squared end-to-end distance is the largest of all segments and strictly larger than
  that of every earlier segment: the first segment among those with the largest value.
\<close>

theorem longestSegment_first_largest:
  assumes "segments \<noteq> []"
  shows "longestSegment segments < length segments
       \<and> (\<forall>j<length segments.
             end_displacement (segments ! j)
               \<le> end_displacement (segments ! longestSegment segments))
       \<and> (\<forall>j<longestSegment segments.
             end_displacement (segments ! j)
               < end_displacement (segments ! longestSegment segments))"
proof -
  have "0 < length segments" using assms by simp
  from running_max_invariant [of "\<lambda>i. end_displacement (segments ! i)", OF end_displacement_nonneg this]
  show ?thesis
    by (auto simp: longestSegment_def split: prod.splits)
qed

theorem longestSegment_first_largest_witness:
  "[[sample_at 0 0 0, sample_at 1 0 0], [sample_at 0 1 0, sample_at 2 1 0],
    [sample_at 0 2 0, sample_at 2 2 0]] \<noteq> []
   \<and> longestSegment [[sample_at 0 0 0, sample_at 1 0 0], [sample_at 0 1 0, sample_at 2 1 0],
        [sample_at 0 2 0, sample_at 2 2 0]] = 1"
proof -
  let ?segs = "[[sample_at 0 0 0, sample_at 1 0 0], [sample_at 0 1 0, sample_at 2 1 0],
        [sample_at 0 2 0, sample_at 2 2 0]]"
  have h: "?segs \<noteq> []" by simp
  have d: "end_displacement (?segs ! 0) = 1" "end_displacement (?segs ! 1) = 4"
    "end_displacement (?segs ! 2) = 4"
    by (simp_all add: end_displacement_def sample_at_def squaredNorm_def vsub_def)
  from longestSegment_first_largest [OF h]
  have r: "longestSegment ?segs < 3"
    and ge: "\<forall>j<3. end_displacement (?segs ! j) \<le> end_displacement (?segs ! longestSegment ?segs)"
    and lt: "\<forall>j<longestSegment ?segs. end_displacement (?segs ! j)
                < end_displacement (?segs ! longestSegment ?segs)"
    by simp_all
  from r consider "longestSegment ?segs = 0" | "longestSegment ?segs = 1"
    | "longestSegment ?segs = 2" by linarith
  then have "longestSegment ?segs = 1"
  proof cases
    case 1
    with ge [rule_format, of 1] d show ?thesis by simp
  next
    case 2
    then show ?thesis .
  next
    case 3
    with lt [rule_format, of 1] d show ?thesis by simp
  qed
  with h show ?thesis by simp
qed

text \<open>
  C9. The average of \<open>N \<ge> 1\<close> copies of a unit quaternion \<open>q\<close> is \<open>q\<close> or \<open>-q\<close>, for
  every eigen-solver that decomposes \<open>Q_prime\<close> of the copies; \<open>N = 1\<close> is the average of
  the one-element set.
\<close>

theorem average_identical_rotations:
  assumes "quat_squaredNorm q = 1" and "1 \<le> N"
    and "selfadjoint_eigen (Q_prime (replicate N q)) (solver (Q_prime (replicate N q)))"
  shows "average solver (replicate N q) = q \<or> average solver (replicate N q) = quat_neg q"
proof -
  from average_of_copies [where solver = solver, OF assms] obtain s where
    "s = 1 \<or> s = -1"
    "average solver (replicate N q) = Quaterniond (s * qw q) (s * qx q) (s * qy q) (s * qz q)"
    by blast
  then show ?thesis
    by (auto simp: quat_neg_def)
qed

theorem average_identical_rotations_witness:
  "quat_squaredNorm (Quaterniond 1 0 0 0) = 1 \<and> (1::nat) \<le> 2
   \<and> selfadjoint_eigen (Q_prime (replicate 2 (Quaterniond 1 0 0 0)))
       (diag_solver (Q_prime (replicate 2 (Quaterniond 1 0 0 0))))
   \<and> (average diag_solver (replicate 2 (Quaterniond 1 0 0 0)) = Quaterniond 1 0 0 0
      \<or> average diag_solver (replicate 2 (Quaterniond 1 0 0 0)) = quat_neg (Quaterniond 1 0 0 0))"
proof -
  have u: "quat_squaredNorm (Quaterniond 1 0 0 0) = 1"
    by (simp add: quat_squaredNorm_def)
  have n: "(1::nat) \<le> 2" by simp
  from average_identical_rotations [where solver = diag_solver, OF u n diag_solver_identity_pair]
  show ?thesis using u diag_solver_identity_pair by simp
qed

end
